theory Spec2Isabelle
  imports Main "HOL-Library.Multiset"
begin

section \<open>Data model\<close>

text \<open>
  The code generator of the mini-Pascal compiler (\<^verbatim>\<open>codegenerator.cpp\<close>) walks a typed
  abstract syntax tree and appends textual instructions for a stack machine to an
  output stream. The tree, the symbol entries and the generator's own fields are
  modelled below with the names the C++ source uses.

  C++ \<^verbatim>\<open>int\<close> values are modelled by \<^typ>\<open>int\<close>: signed overflow is undefined
  behaviour in C++, so the model describes the runs whose arithmetic stays in range.
\<close>

datatype EntryTypeCategory =
  PRIMITIVE_INTEGER | PRIMITIVE_REAL | PRIMITIVE_BOOLEAN | ARRAY | UNKNOWN_TYPE

datatype SymbolKind = VARIABLE | PARAMETER | FUNCTION | PROCEDURE

datatype SymbolScope = GLOBAL | LOCAL

record ArrayDetails =
  elementType :: EntryTypeCategory
  lowBound :: int
  highBound :: int
  isInitialized :: bool

record SymbolEntry =
  name :: string
  kind :: SymbolKind
  type :: EntryTypeCategory
  offset :: int
  arrayDetails :: ArrayDetails
  mangledName :: string
  numParameters :: int
  functionReturnType :: EntryTypeCategory

text \<open>
  Type nodes. A \<^verbatim>\<open>StandardTypeNode\<close> carries a category; the \<^verbatim>\<open>default\<close> branches of
  the source's switches are reached by any category other than the three named ones.
  An \<^verbatim>\<open>ArrayTypeNode\<close> carries an element type (a nullable pointer) and the two bound
  literals, which \<^verbatim>\<open>visit(VarDecl&)\<close> dereferences unconditionally.
\<close>

datatype StandardTypeCategory = TYPE_INTEGER | TYPE_REAL | TYPE_BOOLEAN | TYPE_OTHER

datatype TypeNode =
  StandardTypeNode StandardTypeCategory
| ArrayTypeNode "StandardTypeCategory option" int int

text \<open>
  Expression nodes. Every expression node carries its \<^verbatim>\<open>determinedType\<close> (first
  argument). A null argument list behaves like an empty one in every visitor, so
  argument lists are plain lists. The text of a real literal is the result of
  \<^verbatim>\<open>std::to_string\<close> on its \<^verbatim>\<open>double\<close> value, which is kept as a string here.

  \<^item> \<open>IdExprNode determinedType ident kind scope\<close>
  \<^item> \<open>VariableNode determinedType identifier index scope offset\<close>
  \<^item> \<open>UnaryOpNode determinedType op expression\<close>
  \<^item> \<open>BinaryOpNode determinedType op left right\<close>
  \<^item> \<open>FunctionCallExprNode determinedType funcName arguments resolved_entry\<close>
\<close>

datatype ExprNode =
  IntNumNode EntryTypeCategory int
| RealNumNode EntryTypeCategory string
| BooleanLiteralNode EntryTypeCategory bool
| StringLiteralNode EntryTypeCategory string
| IdExprNode EntryTypeCategory string SymbolKind SymbolScope
| VariableNode EntryTypeCategory string "ExprNode option" SymbolScope int
| UnaryOpNode EntryTypeCategory string ExprNode
| BinaryOpNode EntryTypeCategory string ExprNode ExprNode
| FunctionCallExprNode EntryTypeCategory string "ExprNode list" "SymbolEntry option"

fun determinedType :: "ExprNode \<Rightarrow> EntryTypeCategory" where
  "determinedType (IntNumNode t _) = t"
| "determinedType (RealNumNode t _) = t"
| "determinedType (BooleanLiteralNode t _) = t"
| "determinedType (StringLiteralNode t _) = t"
| "determinedType (IdExprNode t _ _ _) = t"
| "determinedType (VariableNode t _ _ _ _) = t"
| "determinedType (UnaryOpNode t _ _) = t"
| "determinedType (BinaryOpNode t _ _ _) = t"
| "determinedType (FunctionCallExprNode t _ _ _) = t"

text \<open>
  Statement nodes. A statement list may hold null pointers, which the source skips.

  \<^item> \<open>AssignStatementNode variable expression\<close>
  \<^item> \<open>IfStatementNode condition thenStatement elseStatement\<close>
  \<^item> \<open>WhileStatementNode condition body\<close>
  \<^item> \<open>ProcedureCallStatementNode procName arguments resolved_entry\<close>
  \<^item> \<open>ReturnStatementNode returnValue\<close>
\<close>

datatype StatementNode =
  CompoundStatementNode "StatementNode option list"
| AssignStatementNode ExprNode ExprNode
| IfStatementNode ExprNode StatementNode "StatementNode option"
| WhileStatementNode ExprNode StatementNode
| ProcedureCallStatementNode string "ExprNode list" "SymbolEntry option"
| ReturnStatementNode "ExprNode option"

text \<open>
  Declarations: \<open>VarDecl type identifiers\<close>, \<open>ParameterDeclaration ids type\<close>, a
  subprogram head (function or procedure) with its name and parameter groups, and
  \<open>SubprogramDeclaration head local_declarations body\<close>. Source positions of
  identifiers only feed diagnostics and are left out.
\<close>

datatype VarDecl = VarDecl "TypeNode option" "string list"

datatype ParameterDeclaration = ParameterDeclaration "string list" "TypeNode option"

datatype SubprogramHead =
  FunctionHeadNode string "ParameterDeclaration list"
| ProcedureHeadNode string "ParameterDeclaration list"

datatype SubprogramDeclaration =
  SubprogramDeclaration SubprogramHead "VarDecl list" "StatementNode option"

record ProgramNode =
  subprogs :: "SubprogramDeclaration option list"
  decls :: "VarDecl list"
  mainCompoundStmt :: "StatementNode option"

fun head_name :: "SubprogramHead \<Rightarrow> string" where
  "head_name (FunctionHeadNode n _) = n"
| "head_name (ProcedureHeadNode n _) = n"

fun head_arguments :: "SubprogramHead \<Rightarrow> ParameterDeclaration list" where
  "head_arguments (FunctionHeadNode _ ps) = ps"
| "head_arguments (ProcedureHeadNode _ ps) = ps"

fun is_FunctionHeadNode :: "SubprogramHead \<Rightarrow> bool" where
  "is_FunctionHeadNode (FunctionHeadNode _ _) = True"
| "is_FunctionHeadNode (ProcedureHeadNode _ _) = False"

fun is_ProcedureHeadNode :: "SubprogramHead \<Rightarrow> bool" where
  "is_ProcedureHeadNode (ProcedureHeadNode _ _) = True"
| "is_ProcedureHeadNode (FunctionHeadNode _ _) = False"

section \<open>The symbol table\<close>

text \<open>
  The symbol table class is not part of the generator's source file; the generator uses
  its operations \<^verbatim>\<open>enterScope\<close>, \<^verbatim>\<open>exitScope\<close>, \<^verbatim>\<open>isGlobalScope\<close>, \<^verbatim>\<open>addSymbol\<close> and
  \<^verbatim>\<open>lookupSymbol\<close>. The specification describes the table as a stack of lexical scopes,
  each holding named entries. Here the innermost scope is the head of the list and the
  global scope its last element; a scope lists its entries in the order they were added.
\<close>

type_synonym Scope = "(string \<times> SymbolEntry) list"
type_synonym SymbolTable = "Scope list"

text \<open>Modelled from the spec: enter-scope opens a fresh, empty innermost scope.\<close>

definition enterScope :: "SymbolTable \<Rightarrow> SymbolTable" where
  "enterScope t = [] # t"

text \<open>Modelled from the spec: exit-scope drops the innermost scope.\<close>

definition exitScope :: "SymbolTable \<Rightarrow> SymbolTable" where
  "exitScope t = (case t of [] \<Rightarrow> [] | _ # r \<Rightarrow> r)"

text \<open>Modelled from the spec: is-global-scope holds when no scope but the global one is open.\<close>

definition isGlobalScope :: "SymbolTable \<Rightarrow> bool" where
  "isGlobalScope t = (length t \<le> 1)"

text \<open>Modelled from the spec: add-entry puts the entry, under its name, into the innermost scope.\<close>

definition addSymbol :: "SymbolEntry \<Rightarrow> SymbolTable \<Rightarrow> SymbolTable" where
  "addSymbol e t = (case t of [] \<Rightarrow> [[(name e, e)]] | s # r \<Rightarrow> (s @ [(name e, e)]) # r)"

text \<open>
  Modelled from the spec: lookup-by-name searches the scopes from the innermost one
  outwards and yields the first entry under the name, or nothing.
\<close>

fun lookupSymbol :: "SymbolTable \<Rightarrow> string \<Rightarrow> SymbolEntry option" where
  "lookupSymbol [] n = None"
| "lookupSymbol (s # r) n = (case map_of s n of Some e \<Rightarrow> Some e | None \<Rightarrow> lookupSymbol r n)"

section \<open>Generator state, output lines and errors\<close>

text \<open>
  The three \<^verbatim>\<open>emit\<close> helpers of the source write one line each: an instruction, an
  instruction with an operand, or a label. \<open>render\<close> is the text of a line.
\<close>

datatype line = Instr string | InstrArg string string | Label string

fun render :: "line \<Rightarrow> string" where
  "render (Instr i) = ''    '' @ i @ [CHR 0x0A]"
| "render (InstrArg i a) = ''    '' @ i @ '' '' @ a @ [CHR 0x0A]"
| "render (Label l) = l @ '':'' @ [CHR 0x0A]"

text \<open>Every \<^verbatim>\<open>throw std::runtime_error\<close> of the source, one constructor per throw site.\<close>

datatype error =
  ArraySizeMustBePositive
| SymbolNotFoundArrayAllocation string
| SubprogramEntryNotFound string
| ArraySymbolNotFound string
| SymbolNotFoundInAssignment string
| SymbolNotFound string
| ArrayDetailsNotFound string
| SymbolNotFoundForIdentifier string
| ProcedureCallNotResolved string
| FunctionCallNotResolved string
| ReturnWithNoSubprogramContext
| UnsupportedBinaryOp string

record gen_state =
  labelCounter :: int
  symbolTable :: SymbolTable
  local_offset :: int
  param_offset :: int
  currentFunctionContext :: "SubprogramHead option"
  currentSubprogramEntry :: "SymbolEntry option"

text \<open>
  The output stream \<^verbatim>\<open>code\<close> is only ever appended to and is read once, when generation
  has finished. A piece of generator code is therefore modelled as an \<open>action\<close>: run
  from a state, it yields the lines it appended to the stream and either the error it
  threw or the state it left. The lines written before a throw are kept.
\<close>

type_synonym action = "gen_state \<Rightarrow> line list \<times> (error + gen_state)"

definition emit :: "string \<Rightarrow> action" where
  "emit instruction = (\<lambda>st. ([Instr instruction], Inr st))"

definition emit_arg :: "string \<Rightarrow> string \<Rightarrow> action" where
  "emit_arg instruction arg = (\<lambda>st. ([InstrArg instruction arg], Inr st))"

definition emitLabel :: "string \<Rightarrow> action" where
  "emitLabel label = (\<lambda>st. ([Label label], Inr st))"

definition throw :: "error \<Rightarrow> action" where
  "throw e = (\<lambda>st. ([], Inl e))"

definition skip :: action where
  "skip = (\<lambda>st. ([], Inr st))"

definition modify :: "(gen_state \<Rightarrow> gen_state) \<Rightarrow> action" where
  "modify f = (\<lambda>st. ([], Inr (f st)))"

text \<open>Statements executed one after the other; a throw ends the sequence.\<close>

fun seq :: "action list \<Rightarrow> action" where
  "seq [] = skip"
| "seq (a # as) = (\<lambda>st. case a st of
      (c, Inl e) \<Rightarrow> (c, Inl e)
    | (c, Inr st') \<Rightarrow> (case seq as st' of (c', r) \<Rightarrow> (c @ c', r)))"

subsection \<open>Arithmetic in the type int\<close>

text \<open>
  The source computes the size of an array in its type \<^verbatim>\<open>int\<close>, 32 bits wide. \<open>int32\<close>
  is the value the result of an arithmetic operation has in that type: the result
  reduced modulo \<open>2 ^ 32\<close> into the range from \<open>- 2 ^ 31\<close> to \<open>2 ^ 31 - 1\<close>.
\<close>

definition int32 :: "int \<Rightarrow> int" where
  "int32 x = (x + 2 ^ 31) mod 2 ^ 32 - 2 ^ 31"

subsection \<open>Decimal text of an integer\<close>

text \<open>\<^verbatim>\<open>std::to_string\<close> on an \<^verbatim>\<open>int\<close>: decimal digits, with a leading minus sign.\<close>

definition digit_char :: "nat \<Rightarrow> char" where
  "digit_char d = ''0123456789'' ! d"

function to_string_nat :: "nat \<Rightarrow> string" where
  "to_string_nat n =
     (if n < 10 then [digit_char n]
      else to_string_nat (n div 10) @ [digit_char (n mod 10)])"
  by pat_completeness auto
termination
  by (relation "measure id") auto

declare to_string_nat.simps [simp del]

definition to_string :: "int \<Rightarrow> string" where
  "to_string i = (if i < 0 then CHR ''-'' # to_string_nat (nat (- i)) else to_string_nat (nat i))"

definition newLabel :: "string \<Rightarrow> gen_state \<Rightarrow> string \<times> gen_state" where
  "newLabel prefix st =
     (''L_'' @ prefix @ ''_'' @ to_string (labelCounter st),
      st\<lparr>labelCounter := labelCounter st + 1\<rparr>)"

section \<open>Visitors\<close>

subsection \<open>Expressions\<close>

definition push_variable :: "SymbolScope \<Rightarrow> int \<Rightarrow> action" where
  "push_variable scope off =
     (if scope = LOCAL then emit_arg ''pushl'' (to_string off)
      else emit_arg ''pushg'' (to_string off))"

definition is_real_op :: "string \<Rightarrow> ExprNode \<Rightarrow> ExprNode \<Rightarrow> bool" where
  "is_real_op op left right =
     (if op = ''AND_OP'' \<or> op = ''OR_OP'' then False
      else (determinedType left = PRIMITIVE_REAL \<or>
            determinedType right = PRIMITIVE_REAL \<or> op = ''/''))"

definition emit_binary_operator :: "string \<Rightarrow> bool \<Rightarrow> action" where
  "emit_binary_operator op is_real =
     (if op = ''+'' then emit (if is_real then ''fadd'' else ''add'')
      else if op = ''-'' then emit (if is_real then ''fsub'' else ''sub'')
      else if op = ''*'' then emit (if is_real then ''fmul'' else ''mul'')
      else if op = ''/'' then emit ''fdiv''
      else if op = ''DIV_OP'' then emit ''div''
      else if op = ''EQ_OP'' then emit ''equal''
      else if op = ''NEQ_OP'' then seq [emit ''equal'', emit ''not'']
      else if op = ''LT_OP'' then emit (if is_real then ''finf'' else ''inf'')
      else if op = ''LTE_OP'' then emit (if is_real then ''finfeq'' else ''infeq'')
      else if op = ''GT_OP'' then emit (if is_real then ''fsup'' else ''sup'')
      else if op = ''GTE_OP'' then emit (if is_real then ''fsupeq'' else ''supeq'')
      else if op = ''AND_OP'' then emit ''mul''
      else if op = ''OR_OP'' then seq [emit ''add'', emit_arg ''pushi'' ''0'', emit ''sup'']
      else throw (UnsupportedBinaryOp op))"

definition emit_pop :: "SymbolEntry \<Rightarrow> action" where
  "emit_pop entry =
     (if numParameters entry > 0 then emit_arg ''pop'' (to_string (numParameters entry))
      else skip)"

fun visit_ExprNode :: "ExprNode \<Rightarrow> action" where
  "visit_ExprNode (IntNumNode t v) = emit_arg ''pushi'' (to_string v)"
| "visit_ExprNode (RealNumNode t v) = emit_arg ''pushf'' v"
| "visit_ExprNode (BooleanLiteralNode t v) = emit_arg ''pushi'' (if v then ''1'' else ''0'')"
| "visit_ExprNode (StringLiteralNode t v) = emit_arg ''pushs'' ([CHR 0x22] @ v @ [CHR 0x22])"
| "visit_ExprNode (IdExprNode t ident k scope) = (\<lambda>st.
     if k = FUNCTION then
       seq [emit_arg ''pushn'' ''1'', emit_arg ''pusha'' (''f_'' @ ident), emit ''call''] st
     else
       (case lookupSymbol (symbolTable st) ident of
          None \<Rightarrow> throw (SymbolNotFoundForIdentifier ident) st
        | Some entry \<Rightarrow>
            if kind entry = PARAMETER then emit_arg ''pushl'' (to_string (- (offset entry + 1))) st
            else if scope = LOCAL then emit_arg ''pushl'' (to_string (offset entry)) st
            else emit_arg ''pushg'' (to_string (offset entry)) st))"
| "visit_ExprNode (VariableNode t identifier index scope off) = (\<lambda>st.
     case lookupSymbol (symbolTable st) identifier of
       None \<Rightarrow> throw (SymbolNotFound identifier) st
     | Some entry \<Rightarrow>
         if kind entry = PARAMETER then emit_arg ''pushl'' (to_string (- (offset entry + 1))) st
         else
           (case index of
              Some idx \<Rightarrow>
                if \<not> isInitialized (arrayDetails entry) then throw (ArrayDetailsNotFound identifier) st
                else
                  seq [push_variable scope (offset entry),
                       (case idx of
                          IntNumNode _ v \<Rightarrow>
                            emit_arg ''load'' (to_string (v - lowBound (arrayDetails entry)))
                        | _ \<Rightarrow>
                            seq [visit_ExprNode idx,
                                 emit_arg ''pushi'' (to_string (lowBound (arrayDetails entry))),
                                 emit ''sub'',
                                 emit ''loadn''])] st
            | None \<Rightarrow> push_variable scope (offset entry) st))"
| "visit_ExprNode (UnaryOpNode t op expression) =
     seq [visit_ExprNode expression,
          if op = ''-'' then
            (if determinedType expression = PRIMITIVE_REAL
             then seq [emit_arg ''pushf'' ''0.0'', emit ''swap'', emit ''fsub'']
             else seq [emit_arg ''pushi'' ''0'', emit ''swap'', emit ''sub''])
          else if op = ''NOT_OP'' then emit ''not''
          else skip]"
| "visit_ExprNode (BinaryOpNode t op left right) =
     seq [visit_ExprNode left,
          if is_real_op op left right \<and> determinedType left = PRIMITIVE_INTEGER
          then emit ''itof'' else skip,
          visit_ExprNode right,
          if is_real_op op left right \<and> determinedType right = PRIMITIVE_INTEGER
          then emit ''itof'' else skip,
          emit_binary_operator op (is_real_op op left right)]"
| "visit_ExprNode (FunctionCallExprNode t funcName arguments resolved_entry) =
     (case resolved_entry of
        None \<Rightarrow> throw (FunctionCallNotResolved funcName)
      | Some entry \<Rightarrow>
          seq [emit_arg ''pushn'' ''1'',
               seq (map visit_ExprNode (rev arguments)),
               emit_arg ''pusha'' (mangledName entry),
               emit ''call'',
               emit_pop entry])"

subsection \<open>Statements\<close>

definition emit_write :: "ExprNode \<Rightarrow> action" where
  "emit_write arg =
     (case arg of
        StringLiteralNode _ _ \<Rightarrow> emit ''writes''
      | _ \<Rightarrow>
          if determinedType arg = PRIMITIVE_INTEGER \<or> determinedType arg = PRIMITIVE_BOOLEAN
          then emit ''writei''
          else if determinedType arg = PRIMITIVE_REAL then emit ''writef''
          else skip)"

definition store_variable :: "string \<Rightarrow> SymbolScope \<Rightarrow> action" where
  "store_variable identifier scope = (\<lambda>st.
     case lookupSymbol (symbolTable st) identifier of
       None \<Rightarrow> throw (SymbolNotFoundInAssignment identifier) st
     | Some entry \<Rightarrow>
         if kind entry = PARAMETER then emit_arg ''storel'' (to_string (- (offset entry + 1))) st
         else if scope = LOCAL then emit_arg ''storel'' (to_string (offset entry)) st
         else emit_arg ''storeg'' (to_string (offset entry)) st)"

definition visit_ReturnStatementNode :: "ExprNode option \<Rightarrow> action" where
  "visit_ReturnStatementNode returnValue =
     seq [(case returnValue of
             None \<Rightarrow> skip
           | Some value \<Rightarrow> (\<lambda>st.
               case currentSubprogramEntry st of
                 None \<Rightarrow> throw ReturnWithNoSubprogramContext st
               | Some entry \<Rightarrow>
                   seq [visit_ExprNode value,
                        if functionReturnType entry = PRIMITIVE_REAL \<and>
                           determinedType value = PRIMITIVE_INTEGER
                        then emit ''itof'' else skip,
                        emit_arg ''storel'' (to_string (- (numParameters entry + 1)))] st)),
          emit ''return'']"

definition visit_ProcedureCallStatementNode ::
    "string \<Rightarrow> ExprNode list \<Rightarrow> SymbolEntry option \<Rightarrow> action" where
  "visit_ProcedureCallStatementNode procName arguments resolved_entry =
     (if procName = ''write'' \<or> procName = ''writeln'' then
        seq [seq (map (\<lambda>arg. seq [visit_ExprNode arg, emit_write arg]) arguments),
             if procName = ''writeln''
             then seq [emit_arg ''pushs'' [CHR 0x22, CHR 0x0A, CHR 0x22], emit ''writes'']
             else skip]
      else if procName = ''read'' \<or> procName = ''readln'' then skip
      else
        (case resolved_entry of
           None \<Rightarrow> throw (ProcedureCallNotResolved procName)
         | Some entry \<Rightarrow>
             seq [seq (map visit_ExprNode (rev arguments)),
                  emit_arg ''pusha'' (mangledName entry),
                  emit ''call'',
                  emit_pop entry]))"

definition visit_AssignStatementNode :: "ExprNode \<Rightarrow> ExprNode \<Rightarrow> action" where
  "visit_AssignStatementNode variable expression =
     (case variable of
        VariableNode vt identifier index scope off \<Rightarrow>
          (case index of
             Some idx \<Rightarrow> (\<lambda>st.
               case lookupSymbol (symbolTable st) identifier of
                 None \<Rightarrow> throw (ArraySymbolNotFound identifier) st
               | Some arrayEntry \<Rightarrow>
                   seq [push_variable scope off,
                        (case idx of
                           IntNumNode _ v \<Rightarrow>
                             seq [visit_ExprNode expression,
                                  emit_arg ''store''
                                    (to_string (v - lowBound (arrayDetails arrayEntry)))]
                         | _ \<Rightarrow>
                             seq [visit_ExprNode idx,
                                  emit_arg ''pushi'' (to_string (lowBound (arrayDetails arrayEntry))),
                                  emit ''sub'',
                                  visit_ExprNode expression,
                                  emit ''storen''])] st)
           | None \<Rightarrow>
               seq [visit_ExprNode expression,
                    if vt = PRIMITIVE_REAL \<and> determinedType expression = PRIMITIVE_INTEGER
                    then emit ''itof'' else skip,
                    store_variable identifier scope])
      | _ \<Rightarrow> skip)"

fun visit_StatementNode :: "StatementNode \<Rightarrow> action" where
  "visit_StatementNode (CompoundStatementNode stmts) =
     seq (map (\<lambda>stmt. case stmt of None \<Rightarrow> skip | Some s \<Rightarrow> visit_StatementNode s) stmts)"
| "visit_StatementNode (AssignStatementNode variable expression) =
     visit_AssignStatementNode variable expression"
| "visit_StatementNode (IfStatementNode condition thenStatement elseStatement) = (\<lambda>st.
     case newLabel ''ELSE'' st of (elseLabel, st1) \<Rightarrow>
     case newLabel ''END_IF'' st1 of (endIfLabel, st2) \<Rightarrow>
       seq [visit_ExprNode condition,
            emit_arg ''jz'' elseLabel,
            visit_StatementNode thenStatement,
            (case elseStatement of None \<Rightarrow> skip | Some _ \<Rightarrow> emit_arg ''jump'' endIfLabel),
            emitLabel elseLabel,
            (case elseStatement of None \<Rightarrow> skip | Some s \<Rightarrow> visit_StatementNode s),
            emitLabel endIfLabel] st2)"
| "visit_StatementNode (WhileStatementNode condition body) = (\<lambda>st.
     case newLabel ''WHILE_START'' st of (loopStartLabel, st1) \<Rightarrow>
     case newLabel ''WHILE_END'' st1 of (loopEndLabel, st2) \<Rightarrow>
       seq [emitLabel loopStartLabel,
            visit_ExprNode condition,
            emit_arg ''jz'' loopEndLabel,
            visit_StatementNode body,
            emit_arg ''jump'' loopStartLabel,
            emitLabel loopEndLabel] st2)"
| "visit_StatementNode (ProcedureCallStatementNode procName arguments resolved_entry) =
     visit_ProcedureCallStatementNode procName arguments resolved_entry"
| "visit_StatementNode (ReturnStatementNode returnValue) =
     visit_ReturnStatementNode returnValue"

subsection \<open>Declarations\<close>

text \<open>
  Modelled from the spec: the default member values of \<^verbatim>\<open>ArrayDetails\<close> are set in a
  header that is not part of the generator's source file. An array's details start
  uninitialised.
\<close>

definition default_ArrayDetails :: ArrayDetails where
  "default_ArrayDetails =
     \<lparr>elementType = UNKNOWN_TYPE, lowBound = 0, highBound = 0, isInitialized = False\<rparr>"

text \<open>
  Modelled from the spec: the five-argument constructor of \<^verbatim>\<open>SymbolEntry\<close> (name, kind,
  type, line, column) is in a header that is not part of the generator's source file. A
  fresh entry has no mangled name and no parameters.
\<close>

definition new_SymbolEntry :: "string \<Rightarrow> SymbolKind \<Rightarrow> EntryTypeCategory \<Rightarrow> SymbolEntry" where
  "new_SymbolEntry n k t =
     \<lparr>name = n, kind = k, type = t, offset = 0, arrayDetails = default_ArrayDetails,
      mangledName = [], numParameters = 0, functionReturnType = UNKNOWN_TYPE\<rparr>"

definition standard_category :: "StandardTypeCategory \<Rightarrow> EntryTypeCategory" where
  "standard_category c =
     (case c of
        TYPE_INTEGER \<Rightarrow> PRIMITIVE_INTEGER
      | TYPE_REAL \<Rightarrow> PRIMITIVE_REAL
      | TYPE_BOOLEAN \<Rightarrow> PRIMITIVE_BOOLEAN
      | TYPE_OTHER \<Rightarrow> UNKNOWN_TYPE)"

definition astToSymbolType ::
    "TypeNode option \<Rightarrow> ArrayDetails \<Rightarrow> EntryTypeCategory \<times> ArrayDetails" where
  "astToSymbolType astTypeNode outArrayDetails =
     (let ad = outArrayDetails\<lparr>isInitialized := False\<rparr> in
      case astTypeNode of
        None \<Rightarrow> (UNKNOWN_TYPE, ad)
      | Some (StandardTypeNode c) \<Rightarrow> (standard_category c, ad)
      | Some (ArrayTypeNode et startIndex endIndex) \<Rightarrow>
          (ARRAY,
           (case et of None \<Rightarrow> ad | Some c \<Rightarrow> ad\<lparr>elementType := standard_category c\<rparr>)
             \<lparr>lowBound := startIndex, highBound := endIndex, isInitialized := True\<rparr>))"

definition is_ArrayTypeNode :: "TypeNode option \<Rightarrow> bool" where
  "is_ArrayTypeNode t = (case t of Some (ArrayTypeNode _ _ _) \<Rightarrow> True | _ \<Rightarrow> False)"

definition allocate_array :: "int \<Rightarrow> string \<Rightarrow> action" where
  "allocate_array array_size ident = (\<lambda>st.
     case lookupSymbol (symbolTable st) ident of
       None \<Rightarrow> throw (SymbolNotFoundArrayAllocation ident) st
     | Some entry \<Rightarrow>
         seq [emit_arg ''alloc'' (to_string array_size),
              if isGlobalScope (symbolTable st)
              then emit_arg ''storeg'' (to_string (offset entry))
              else emit_arg ''storel'' (to_string (offset entry))] st)"

fun visit_VarDecl :: "VarDecl \<Rightarrow> action" where
  "visit_VarDecl (VarDecl type_node identifiers) =
     seq [(\<lambda>st.
            if \<not> isGlobalScope (symbolTable st) then
              (case astToSymbolType type_node default_ArrayDetails of (var_type, ad) \<Rightarrow>
                 let varCount = foldl (\<lambda>c ident. if var_type = ARRAY then c else c + 1)
                                  (0::int) identifiers
                 in if varCount > 0 then emit_arg ''pushn'' (to_string varCount) st
                    else skip st)
            else skip st),
          (case type_node of
             Some (ArrayTypeNode et low high) \<Rightarrow>
               (let array_size = int32 (int32 (high - low) + 1) in
                if array_size \<le> 0 then throw ArraySizeMustBePositive
                else seq (map (allocate_array array_size) identifiers))
           | _ \<Rightarrow> skip)]"

fun visit_Declarations :: "VarDecl list \<Rightarrow> action" where
  "visit_Declarations var_decl_items =
     seq [(\<lambda>st.
            if isGlobalScope (symbolTable st) then
              (if var_decl_items \<noteq> [] then
                 (let varCount =
                        foldl (\<lambda>c decl. case decl of VarDecl type_node identifiers \<Rightarrow>
                                 if is_ArrayTypeNode type_node then c else c + int (length identifiers))
                          (0::int) var_decl_items
                  in if varCount > 0 then emit_arg ''pushn'' (to_string varCount) st
                     else skip st)
               else skip st)
            else skip st),
          seq (map visit_VarDecl var_decl_items)]"

subsection \<open>Subprograms\<close>

definition type_code :: "EntryTypeCategory \<Rightarrow> string" where
  "type_code t =
     (case t of
        PRIMITIVE_INTEGER \<Rightarrow> ''i''
      | PRIMITIVE_REAL \<Rightarrow> ''r''
      | PRIMITIVE_BOOLEAN \<Rightarrow> ''b''
      | ARRAY \<Rightarrow> ''a''
      | UNKNOWN_TYPE \<Rightarrow> ''u'')"

fun mangle_group :: "ParameterDeclaration \<Rightarrow> string" where
  "mangle_group (ParameterDeclaration ids type_node) =
     (case type_node of
        None \<Rightarrow> []
      | Some _ \<Rightarrow>
          concat (map (\<lambda>_. ''_'' @ type_code (fst (astToSymbolType type_node default_ArrayDetails))) ids))"

definition mangledKey :: "SubprogramHead \<Rightarrow> string" where
  "mangledKey head =
     (if is_FunctionHeadNode head then ''f_'' else ''p_'') @ head_name head @
     concat (map mangle_group (head_arguments head))"

definition add_parameter :: "EntryTypeCategory \<Rightarrow> ArrayDetails \<Rightarrow> string \<Rightarrow> action" where
  "add_parameter param_type ad ident =
     modify (\<lambda>st.
       let entry = (new_SymbolEntry ident PARAMETER param_type)\<lparr>offset := param_offset st\<rparr>;
           entry' = (if param_type = ARRAY then entry\<lparr>arrayDetails := ad\<rparr> else entry)
       in st\<lparr>param_offset := param_offset st + 1,
              symbolTable := addSymbol entry' (symbolTable st)\<rparr>)"

fun visit_ParameterDeclaration :: "ParameterDeclaration \<Rightarrow> action" where
  "visit_ParameterDeclaration (ParameterDeclaration ids type_node) =
     (case astToSymbolType type_node default_ArrayDetails of (param_type, ad) \<Rightarrow>
        seq (map (add_parameter param_type ad) ids))"

definition visit_ParameterList :: "ParameterDeclaration list \<Rightarrow> action" where
  "visit_ParameterList paramDeclarations = seq (map visit_ParameterDeclaration paramDeclarations)"

fun visit_SubprogramDeclaration :: "SubprogramDeclaration \<Rightarrow> action" where
  "visit_SubprogramDeclaration (SubprogramDeclaration head local_declarations body) = (\<lambda>st.
     let previousContext = currentFunctionContext st;
         st1 = st\<lparr>currentFunctionContext := Some head\<rparr>
     in case lookupSymbol (symbolTable st1) (mangledKey head) of
          None \<Rightarrow> throw (SubprogramEntryNotFound (head_name head)) st1
        | Some entry \<Rightarrow>
            let previousEntry = currentSubprogramEntry st1;
                st2 = st1\<lparr>currentSubprogramEntry := Some entry\<rparr>;
                endLabel = mangledName entry @ ''_end''
            in seq [emit_arg ''jump'' endLabel,
                    emitLabel (mangledName entry),
                    modify (\<lambda>s. s\<lparr>symbolTable := enterScope (symbolTable s),
                                   local_offset := 0, param_offset := 0\<rparr>),
                    visit_ParameterList (head_arguments head),
                    visit_Declarations local_declarations,
                    (case body of None \<Rightarrow> skip | Some b \<Rightarrow> visit_StatementNode b),
                    if is_ProcedureHeadNode head then emit ''return'' else skip,
                    emitLabel endLabel,
                    modify (\<lambda>s. s\<lparr>symbolTable := exitScope (symbolTable s),
                                   currentFunctionContext := previousContext,
                                   currentSubprogramEntry := previousEntry\<rparr>)] st2)"

definition visit_SubprogramDeclarations :: "SubprogramDeclaration option list \<Rightarrow> action" where
  "visit_SubprogramDeclarations subprograms =
     seq (map (\<lambda>subprog. case subprog of None \<Rightarrow> skip
                          | Some d \<Rightarrow> visit_SubprogramDeclaration d) subprograms)"

definition visit_ProgramNode :: "ProgramNode \<Rightarrow> action" where
  "visit_ProgramNode node =
     seq [emit ''start'',
          if subprogs node \<noteq> [] then emit_arg ''jump'' ''main_entry'' else skip,
          visit_SubprogramDeclarations (subprogs node),
          emitLabel ''main_entry'',
          visit_Declarations (decls node),
          (case mainCompoundStmt node of None \<Rightarrow> skip | Some s \<Rightarrow> visit_StatementNode s),
          emit ''stop'']"

text \<open>
  Modelled from the spec: the initial values of the generator's fields are set in a
  header that is not part of the generator's source file. The label counter starts at
  zero and there is no current subprogram.
\<close>

definition initial_state :: "SymbolTable \<Rightarrow> gen_state" where
  "initial_state t =
     \<lparr>labelCounter = 0, symbolTable = t, local_offset = 0, param_offset = 0,
      currentFunctionContext = None, currentSubprogramEntry = None\<rparr>"

text \<open>
  \<^verbatim>\<open>generateCode\<close> takes the symbol table of the semantic analyzer, visits the program
  and returns the whole text of the output stream. It resets neither the stream nor any
  field of the generator object it is called on: \<open>code\<close> is what the stream holds at the
  call and \<open>gen\<close> are the object's fields then (\<open>[]\<close> and \<open>initial_state\<close> for a new
  object). The result is the returned text, with the stream and the fields the call
  leaves behind. When the visit throws, the call returns nothing and the object is not
  followed further.
\<close>

definition generateCode ::
    "line list \<Rightarrow> gen_state \<Rightarrow> ProgramNode \<Rightarrow> SymbolTable \<Rightarrow>
     error + (string \<times> line list \<times> gen_state)" where
  "generateCode code gen ast_root t =
     (case visit_ProgramNode ast_root (gen\<lparr>symbolTable := t\<rparr>) of
        (c, Inl e) \<Rightarrow> Inl e
      | (c, Inr gen') \<Rightarrow> Inr (concat (map render (code @ c)), code @ c, gen'))"

section \<open>Notions used in the statements\<close>

subsection \<open>Outcome of an action\<close>

text \<open>
  The lines an action writes from a state, whether it completes without throwing, and
  the state it leaves (the starting state when it throws).
\<close>

definition emitted :: "action \<Rightarrow> gen_state \<Rightarrow> line list" where
  "emitted a st = fst (a st)"

definition succeeds :: "action \<Rightarrow> gen_state \<Rightarrow> bool" where
  "succeeds a st = (case snd (a st) of Inl _ \<Rightarrow> False | Inr _ \<Rightarrow> True)"

text \<open>An action keeps the state when every normal completion leaves it as it was.\<close>

definition keeps :: "gen_state \<Rightarrow> line list \<times> (error + gen_state) \<Rightarrow> bool" where
  "keeps st r = (case snd r of Inl _ \<Rightarrow> True | Inr st' \<Rightarrow> st' = st)"

text \<open>The state an action leaves; the starting state when it throws.\<close>

definition next_state :: "action \<Rightarrow> gen_state \<Rightarrow> gen_state" where
  "next_state a st = (case snd (a st) of Inl _ \<Rightarrow> st | Inr st' \<Rightarrow> st')"

subsection \<open>Labels of a piece of output\<close>

text \<open>
  The labels a list of lines defines, in order. A label made by \<open>newLabel\<close> ends with
  an underscore followed by the decimal text of the counter, so the text after the last
  underscore of a label identifies the counter value it was made from. A list of labels
  is numbered in a set of counter values when the labels begin with \<open>L_\<close>, carry numbers
  of that set, and no two carry the same number. The result of an action is
  \<open>labels_ok\<close> from a state when a normal completion raises the label counter at most,
  and the labels it defined are numbered in the counter values it consumed.
\<close>

primrec labels_of :: "line list \<Rightarrow> string list" where
  "labels_of [] = []"
| "labels_of (x # xs) = (case x of Label l \<Rightarrow> l # labels_of xs | _ \<Rightarrow> labels_of xs)"

definition label_suffix :: "string \<Rightarrow> string" where
  "label_suffix l = rev (takeWhile (\<lambda>c. c \<noteq> CHR ''_'') (rev l))"

definition numbered_in :: "int set \<Rightarrow> string list \<Rightarrow> bool" where
  "numbered_in N ls \<longleftrightarrow>
     distinct (map label_suffix ls) \<and>
     (\<forall>l\<in>set ls. \<exists>n\<in>N. label_suffix l = to_string n \<and> take 2 l = ''L_'')"

definition labels_ok :: "gen_state \<Rightarrow> line list \<times> (error + gen_state) \<Rightarrow> bool" where
  "labels_ok st r =
     (case snd r of
        Inl _ \<Rightarrow> True
      | Inr st' \<Rightarrow>
          symbolTable st' = symbolTable st \<and>
          labelCounter st \<le> labelCounter st' \<and>
          numbered_in {labelCounter st ..< labelCounter st'} (labels_of (fst r)))"

subsection \<open>Parameters and subprogram labels\<close>

text \<open>
  The scope the specification expects after the parameter list of a subprogram has
  been visited: one entry of kind \<open>PARAMETER\<close> per declared identifier, in declaration
  order, with consecutive offsets starting at \<open>k\<close>. It is compared with what
  \<open>visit_ParameterList\<close> builds.
\<close>

fun parameter_scope :: "int \<Rightarrow> EntryTypeCategory \<Rightarrow> ArrayDetails \<Rightarrow> string list \<Rightarrow> Scope" where
  "parameter_scope k t ad [] = []"
| "parameter_scope k t ad (n # ns) =
     (n, \<lparr>name = n, kind = PARAMETER, type = t, offset = k,
          arrayDetails = (if t = ARRAY then ad else default_ArrayDetails),
          mangledName = [], numParameters = 0, functionReturnType = UNKNOWN_TYPE\<rparr>)
     # parameter_scope (k + 1) t ad ns"

fun declared_parameters :: "int \<Rightarrow> ParameterDeclaration list \<Rightarrow> Scope" where
  "declared_parameters k [] = []"
| "declared_parameters k (ParameterDeclaration ids type_node # ps) =
     parameter_scope k (fst (astToSymbolType type_node default_ArrayDetails))
       (snd (astToSymbolType type_node default_ArrayDetails)) ids
     @ declared_parameters (k + int (length ids)) ps"

text \<open>
  The labels of the declared subprograms: for each declaration whose symbol entry is
  found under its mangled key, the entry's mangled name and that name followed by
  \<open>_end\<close>. The result of a piece of program-level generation is \<open>program_ok\<close> for a
  list of such labels when a normal completion leaves the symbol table as it was and the
  labels it defined are, in some order, these labels and labels numbered in the counter
  values it consumed.
\<close>

fun subprogram_labels :: "SymbolTable \<Rightarrow> SubprogramDeclaration option list \<Rightarrow> string list" where
  "subprogram_labels t [] = []"
| "subprogram_labels t (None # ds) = subprogram_labels t ds"
| "subprogram_labels t (Some (SubprogramDeclaration head locals body) # ds) =
     (case lookupSymbol t (mangledKey head) of
        None \<Rightarrow> []
      | Some entry \<Rightarrow> [mangledName entry, mangledName entry @ ''_end''])
     @ subprogram_labels t ds"

text \<open>
  The semantic analyzer stores a subprogram's entry under its mangled name. A symbol
  table agrees with a list of declarations when each entry found under the key the
  generator recomputes carries that key as its mangled name.
\<close>

fun mangled_names_agree :: "SymbolTable \<Rightarrow> SubprogramDeclaration option list \<Rightarrow> bool" where
  "mangled_names_agree t [] = True"
| "mangled_names_agree t (None # ds) = mangled_names_agree t ds"
| "mangled_names_agree t (Some (SubprogramDeclaration head locals body) # ds) =
     ((case lookupSymbol t (mangledKey head) of
         None \<Rightarrow> True
       | Some entry \<Rightarrow> mangledName entry = mangledKey head)
      \<and> mangled_names_agree t ds)"

definition program_ok ::
    "string list \<Rightarrow> gen_state \<Rightarrow> line list \<times> (error + gen_state) \<Rightarrow> bool" where
  "program_ok S st r =
     (case snd r of
        Inl _ \<Rightarrow> True
      | Inr st' \<Rightarrow>
          symbolTable st' = symbolTable st \<and>
          labelCounter st \<le> labelCounter st' \<and>
          (\<exists>cs. numbered_in {labelCounter st ..< labelCounter st'} cs \<and>
                mset (labels_of (fst r)) = mset cs + mset S))"

section \<open>Basic facts about actions\<close>

lemma emit_apply [simp]:
  "emit i st = ([Instr i], Inr st)"
  "emit_arg i a st = ([InstrArg i a], Inr st)"
  "emitLabel l st = ([Label l], Inr st)"
  "throw e st = ([], Inl e)"
  "skip st = ([], Inr st)"
  "modify f st = ([], Inr (f st))"
  by (simp_all add: emit_def emit_arg_def emitLabel_def throw_def skip_def modify_def)

lemma seq_Nil_apply [simp]: "seq [] st = ([], Inr st)"
  by simp

lemma seq_Cons_apply:
  "seq (a # as) st =
     (case a st of
        (c, Inl e) \<Rightarrow> (c, Inl e)
      | (c, Inr st') \<Rightarrow> (case seq as st' of (c', r) \<Rightarrow> (c @ c', r)))"
  by simp

declare seq.simps [simp del]

lemma seq_Cons_Inr:
  "a st = (c, Inr st') \<Longrightarrow> seq (a # as) st = (c @ fst (seq as st'), snd (seq as st'))"
  by (simp add: seq_Cons_apply split: prod.splits)

lemma seq_Cons_Inl: "a st = (c, Inl e) \<Longrightarrow> seq (a # as) st = (c, Inl e)"
  by (simp add: seq_Cons_apply)

lemma keeps_basic [simp]:
  "keeps st (c, Inl e)"
  "keeps st (c, Inr st') = (st' = st)"
  by (simp_all add: keeps_def)

lemma keeps_seq_Nil [simp]: "keeps st (seq [] st)"
  by simp

lemma keeps_seq_Cons:
  assumes "keeps st (a st)" and "keeps st (seq as st)"
  shows "keeps st (seq (a # as) st)"
proof (cases "a st")
  case (Pair c r)
  show ?thesis
  proof (cases r)
    case (Inl e)
    with Pair show ?thesis by (simp add: seq_Cons_Inl)
  next
    case (Inr s1)
    with Pair assms(1) have s1: "s1 = st" by simp
    from Pair Inr s1 have "seq (a # as) st = (c @ fst (seq as st), snd (seq as st))"
      by (simp add: seq_Cons_Inr)
    with assms(2) show ?thesis by (simp add: keeps_def)
  qed
qed

lemma keeps_seq_map:
  "(\<And>x. x \<in> set xs \<Longrightarrow> keeps st (f x st)) \<Longrightarrow> keeps st (seq (map f xs) st)"
  by (induction xs) (simp_all add: keeps_seq_Cons)

lemma keeps_if: "keeps st (a st) \<Longrightarrow> keeps st (b st) \<Longrightarrow> keeps st ((if c then a else b) st)"
  by simp

lemmas keeps_intros = keeps_if keeps_seq_Cons keeps_seq_Nil

lemma keeps_emit [simp]:
  "keeps st (emit i st)" "keeps st (emit_arg i a st)" "keeps st (emitLabel l st)"
  "keeps st (throw e st)" "keeps st (skip st)"
  by simp_all

lemma keeps_push_variable [simp]: "keeps st (push_variable s off st)"
  by (simp add: push_variable_def)

lemma keeps_emit_pop [simp]: "keeps st (emit_pop e st)"
  by (simp add: emit_pop_def)

lemma keeps_emit_binary_operator [simp]: "keeps st (emit_binary_operator op b st)"
  unfolding emit_binary_operator_def by (intro keeps_intros keeps_emit)

lemma keeps_visit_ExprNode: "keeps st (visit_ExprNode e st)"
proof (induction e arbitrary: st rule: visit_ExprNode.induct)
  case (5 t ident k scope)
  show ?case
  proof (cases "k = FUNCTION")
    case True
    then show ?thesis by (simp add: keeps_intros)
  next
    case False
    then show ?thesis
      by (cases "lookupSymbol (symbolTable st) ident") simp_all
  qed
next
  case (6 t ident index scope off)
  show ?case
  proof (cases "lookupSymbol (symbolTable st) ident")
    case None
    then show ?thesis by simp
  next
    case (Some entry)
    note look = this
    show ?thesis
    proof (cases "kind entry = PARAMETER")
      case True
      with look show ?thesis by simp
    next
      case False
      note notparam = this
      show ?thesis
      proof (cases index)
        case None
        with look show ?thesis by simp
      next
        case (Some idx)
        note idx = this
        show ?thesis
        proof (cases "isInitialized (arrayDetails entry)")
          case False
          with look idx show ?thesis by simp
        next
          case True
          have "keeps st ((case idx of
                            IntNumNode _ v \<Rightarrow>
                              emit_arg ''load'' (to_string (v - lowBound (arrayDetails entry)))
                          | _ \<Rightarrow>
                              seq [visit_ExprNode idx,
                                   emit_arg ''pushi'' (to_string (lowBound (arrayDetails entry))),
                                   emit ''sub'',
                                   emit ''loadn'']) st)"
            using 6 look notparam idx True by (cases idx) (simp_all add: keeps_intros)
          with idx look show ?thesis
            by (simp add: keeps_intros)
        qed
      qed
    qed
  qed
next
  case (7 t op expression)
  then show ?case by (simp add: keeps_intros)
next
  case (8 t op left right)
  then show ?case by (simp add: keeps_intros)
next
  case (9 t funcName arguments resolved_entry)
  show ?case
  proof (cases resolved_entry)
    case None
    then show ?thesis by simp
  next
    case (Some entry)
    have "keeps st (seq (map visit_ExprNode (rev arguments)) st)"
      using 9[OF Some] by (intro keeps_seq_map) auto
    with Some show ?thesis by (simp add: keeps_intros)
  qed
qed simp_all




lemmas eval_simps =
  to_string_def to_string_nat.simps digit_char_def emitted_def succeeds_def seq_Cons_apply
  initial_state_def

lemmas gen_simps =
  eval_simps visit_ReturnStatementNode_def visit_ProcedureCallStatementNode_def
  visit_AssignStatementNode_def visit_ParameterList_def visit_SubprogramDeclarations_def
  visit_ProgramNode_def mangledKey_def astToSymbolType_def type_code_def add_parameter_def
  new_SymbolEntry_def default_ArrayDetails_def standard_category_def is_ArrayTypeNode_def
  allocate_array_def store_variable_def push_variable_def emit_pop_def emit_write_def
  is_real_op_def emit_binary_operator_def enterScope_def exitScope_def isGlobalScope_def
  addSymbol_def newLabel_def Let_def


lemma emitted_basic [simp]:
  "emitted (emit i) st = [Instr i]"
  "emitted (emit_arg i a) st = [InstrArg i a]"
  "emitted (emitLabel l) st = [Label l]"
  "emitted (throw e) st = []"
  "emitted skip st = []"
  "emitted (modify f) st = []"
  by (simp_all add: emitted_def)

lemma succeeds_basic [simp]:
  "succeeds (emit i) st"
  "succeeds (emit_arg i a) st"
  "succeeds (emitLabel l) st"
  "\<not> succeeds (throw e) st"
  "succeeds skip st"
  "succeeds (modify f) st"
  by (simp_all add: succeeds_def)

lemma next_state_basic [simp]:
  "next_state (emit i) st = st"
  "next_state (emit_arg i a) st = st"
  "next_state (emitLabel l) st = st"
  "next_state (throw e) st = st"
  "next_state skip st = st"
  "next_state (modify f) st = f st"
  by (simp_all add: next_state_def)

lemma seq_Nil_facts [simp]:
  "emitted (seq []) st = []" "succeeds (seq []) st" "next_state (seq []) st = st"
  by (simp_all add: emitted_def succeeds_def next_state_def)

lemma emitted_seq_Cons:
  "emitted (seq (a # as)) st =
     emitted a st @ (if succeeds a st then emitted (seq as) (next_state a st) else [])"
  by (cases "a st")
     (auto simp: emitted_def succeeds_def next_state_def seq_Cons_apply split: sum.splits prod.splits)

lemma succeeds_seq_Cons:
  "succeeds (seq (a # as)) st = (succeeds a st \<and> succeeds (seq as) (next_state a st))"
  by (cases "a st")
     (auto simp: succeeds_def next_state_def seq_Cons_apply split: sum.splits prod.splits)

lemma next_state_seq_Cons:
  "succeeds (seq (a # as)) st \<Longrightarrow>
   next_state (seq (a # as)) st = next_state (seq as) (next_state a st)"
  by (cases "a st")
     (auto simp: succeeds_def next_state_def seq_Cons_apply split: sum.splits prod.splits)

lemma action_Inr_iff:
  "a st = (c, Inr st') \<longleftrightarrow> emitted a st = c \<and> succeeds a st \<and> next_state a st = st'"
  by (cases "a st") (auto simp: emitted_def succeeds_def next_state_def split: sum.splits)

lemma next_state_visit_ExprNode [simp]: "next_state (visit_ExprNode e) st = st"
  using keeps_visit_ExprNode[of st e]
  by (auto simp: next_state_def keeps_def split: sum.splits)

lemma next_state_push_variable [simp]: "next_state (push_variable s off) st = st"
  by (simp add: push_variable_def)

lemma succeeds_push_variable [simp]: "succeeds (push_variable s off) st"
  by (simp add: push_variable_def)

lemmas seq_simps = emitted_seq_Cons succeeds_seq_Cons next_state_seq_Cons

section \<open>Calling convention\<close>




section \<open>Return statements\<close>

text \<open>
  Claim C2, as amended. While no current subprogram is set, a return statement with a
  return value throws the missing-context error and emits nothing; a bare return
  statement does not fail: it emits the single instruction \<open>return\<close>.
\<close>

theorem return_without_context:
  assumes "currentSubprogramEntry st = None"
  shows "visit_StatementNode (ReturnStatementNode (Some v)) st = ([], Inl ReturnWithNoSubprogramContext)
       \<and> visit_StatementNode (ReturnStatementNode None) st = ([Instr ''return''], Inr st)"
  using assms by (simp add: visit_ReturnStatementNode_def seq_Cons_apply)

text \<open>The two return statements in the main program, where no subprogram is current.\<close>

theorem return_without_context_witness:
  "visit_StatementNode (ReturnStatementNode (Some (IntNumNode PRIMITIVE_INTEGER 1))) (initial_state [])
     = ([], Inl ReturnWithNoSubprogramContext)
   \<and> visit_StatementNode (ReturnStatementNode None) (initial_state [])
     = ([Instr ''return''], Inr (initial_state []))"
  using return_without_context[of "initial_state []" "IntNumNode PRIMITIVE_INTEGER 1"]
  by (simp add: initial_state_def)

text \<open>
  Claim C2 as stated fails: a bare return statement visited with no current subprogram
  completes normally and emits an instruction.
\<close>

theorem bare_return_without_context_counterexample:
  "currentSubprogramEntry (initial_state []) = None \<and>
   visit_StatementNode (ReturnStatementNode None) (initial_state [])
     = ([Instr ''return''], Inr (initial_state []))"
  by (simp add: initial_state_def visit_ReturnStatementNode_def seq_Cons_apply)

section \<open>Coercions in binary operations\<close>

lemma visit_BinaryOpNode_emitted:
  assumes "succeeds (visit_ExprNode left) st" and "succeeds (visit_ExprNode right) st"
  shows "emitted (visit_ExprNode (BinaryOpNode t op left right)) st =
           emitted (visit_ExprNode left) st @
           (if is_real_op op left right \<and> determinedType left = PRIMITIVE_INTEGER
            then [Instr ''itof''] else []) @
           emitted (visit_ExprNode right) st @
           (if is_real_op op left right \<and> determinedType right = PRIMITIVE_INTEGER
            then [Instr ''itof''] else []) @
           emitted (emit_binary_operator op (is_real_op op left right)) st"
  by (simp add: seq_simps assms)

lemma emit_binary_operator_no_itof:
  "Instr ''itof'' \<notin> set (emitted (emit_binary_operator op r) st)"
  by (simp add: emit_binary_operator_def seq_simps)

text \<open>
  Claim C5, as amended. A binary operation is real-valued exactly when an operand's
  type is real or the operator is \<open>/\<close>, and never when the operator is the logical
  \<open>AND_OP\<close> or \<open>OR_OP\<close>. Let both operands generate without error, and let \<open>code_l\<close>,
  \<open>code_r\<close> and \<open>code_op\<close> be the code of the left operand, of the right operand and of
  the operator; \<open>code_op\<close> holds no \<open>itof\<close>.
  \<^item> When an integer operand meets a real operand in a real-valued operation, the code
    of the operation has one \<open>itof\<close> directly after the integer operand's code and none
    after the real operand's code.
  \<^item> An operation on two real operands has no \<open>itof\<close> after either operand's code.
  \<^item> An operation on two integer operands has no \<open>itof\<close> after either operand's code,
    unless its operator is \<open>/\<close>: then it has one \<open>itof\<close> directly after each operand's
    code.
\<close>

theorem binary_coercion:
  assumes "succeeds (visit_ExprNode left) st" and "succeeds (visit_ExprNode right) st"
      and "real_valued = is_real_op op left right"
      and "code = emitted (visit_ExprNode (BinaryOpNode t op left right)) st"
      and "code_l = emitted (visit_ExprNode left) st"
      and "code_r = emitted (visit_ExprNode right) st"
      and "code_op = emitted (emit_binary_operator op real_valued) st"
  shows "(real_valued \<longleftrightarrow>
            op \<noteq> ''AND_OP'' \<and> op \<noteq> ''OR_OP'' \<and>
            (determinedType left = PRIMITIVE_REAL \<or> determinedType right = PRIMITIVE_REAL \<or>
             op = ''/''))
       \<and> (real_valued \<and> determinedType left = PRIMITIVE_INTEGER \<and>
            determinedType right = PRIMITIVE_REAL \<longrightarrow>
            code = code_l @ [Instr ''itof''] @ code_r @ code_op)
       \<and> (real_valued \<and> determinedType left = PRIMITIVE_REAL \<and>
            determinedType right = PRIMITIVE_INTEGER \<longrightarrow>
            code = code_l @ code_r @ [Instr ''itof''] @ code_op)
       \<and> (determinedType left = PRIMITIVE_REAL \<and> determinedType right = PRIMITIVE_REAL \<longrightarrow>
            code = code_l @ code_r @ code_op)
       \<and> (determinedType left = PRIMITIVE_INTEGER \<and> determinedType right = PRIMITIVE_INTEGER \<and>
            op \<noteq> ''/'' \<longrightarrow>
            code = code_l @ code_r @ code_op)
       \<and> (determinedType left = PRIMITIVE_INTEGER \<and> determinedType right = PRIMITIVE_INTEGER \<and>
            op = ''/'' \<longrightarrow>
            code = code_l @ [Instr ''itof''] @ code_r @ [Instr ''itof''] @ code_op)
       \<and> Instr ''itof'' \<notin> set code_op"
proof -
  have r: "real_valued \<longleftrightarrow>
            op \<noteq> ''AND_OP'' \<and> op \<noteq> ''OR_OP'' \<and>
            (determinedType left = PRIMITIVE_REAL \<or> determinedType right = PRIMITIVE_REAL \<or>
             op = ''/'')"
    unfolding assms(3) by (auto simp: is_real_op_def)
  have c: "code =
           code_l @
           (if real_valued \<and> determinedType left = PRIMITIVE_INTEGER then [Instr ''itof''] else []) @
           code_r @
           (if real_valued \<and> determinedType right = PRIMITIVE_INTEGER then [Instr ''itof''] else []) @
           code_op"
    unfolding assms(3-7) using assms(1,2) by (rule visit_BinaryOpNode_emitted)
  have n: "Instr ''itof'' \<notin> set code_op"
    unfolding assms(7) by (rule emit_binary_operator_no_itof)
  have 1: "real_valued \<and> determinedType left = PRIMITIVE_INTEGER \<and>
            determinedType right = PRIMITIVE_REAL \<longrightarrow>
            code = code_l @ [Instr ''itof''] @ code_r @ code_op"
    using c by simp
  have 2: "real_valued \<and> determinedType left = PRIMITIVE_REAL \<and>
            determinedType right = PRIMITIVE_INTEGER \<longrightarrow>
            code = code_l @ code_r @ [Instr ''itof''] @ code_op"
    using c by simp
  have 3: "determinedType left = PRIMITIVE_REAL \<and> determinedType right = PRIMITIVE_REAL \<longrightarrow>
            code = code_l @ code_r @ code_op"
    using c by simp
  have 4: "determinedType left = PRIMITIVE_INTEGER \<and> determinedType right = PRIMITIVE_INTEGER \<and>
            op \<noteq> ''/'' \<longrightarrow>
            code = code_l @ code_r @ code_op"
    using c r by simp
  have 5: "determinedType left = PRIMITIVE_INTEGER \<and> determinedType right = PRIMITIVE_INTEGER \<and>
            op = ''/'' \<longrightarrow>
            code = code_l @ [Instr ''itof''] @ code_r @ [Instr ''itof''] @ code_op"
    using c r by simp
  from r 1 2 3 4 5 n show ?thesis by blast
qed

text \<open>
  The sum \<open>1 + 2.5\<close> of an integer and a real literal, the difference \<open>2.5 - 1.5\<close> of two
  real literals and the sum \<open>1 + 2\<close> of two integer literals.
\<close>

theorem binary_coercion_witness:
  "emitted (visit_ExprNode (BinaryOpNode PRIMITIVE_REAL ''+''
       (IntNumNode PRIMITIVE_INTEGER 1) (RealNumNode PRIMITIVE_REAL ''2.500000''))) (initial_state [])
     = [InstrArg ''pushi'' ''1'', Instr ''itof'', InstrArg ''pushf'' ''2.500000'', Instr ''fadd'']
   \<and> emitted (visit_ExprNode (BinaryOpNode PRIMITIVE_REAL ''-''
       (RealNumNode PRIMITIVE_REAL ''2.500000'') (RealNumNode PRIMITIVE_REAL ''1.500000'')))
       (initial_state [])
     = [InstrArg ''pushf'' ''2.500000'', InstrArg ''pushf'' ''1.500000'', Instr ''fsub'']
   \<and> emitted (visit_ExprNode (BinaryOpNode PRIMITIVE_INTEGER ''+''
       (IntNumNode PRIMITIVE_INTEGER 1) (IntNumNode PRIMITIVE_INTEGER 2))) (initial_state [])
     = [InstrArg ''pushi'' ''1'', InstrArg ''pushi'' ''2'', Instr ''add'']"
  using
    binary_coercion[where left = "IntNumNode PRIMITIVE_INTEGER 1"
      and right = "RealNumNode PRIMITIVE_REAL ''2.500000''" and op = "''+''"
      and t = PRIMITIVE_REAL and st = "initial_state []", OF _ _ refl refl refl refl refl]
    binary_coercion[where left = "RealNumNode PRIMITIVE_REAL ''2.500000''"
      and right = "RealNumNode PRIMITIVE_REAL ''1.500000''" and op = "''-''"
      and t = PRIMITIVE_REAL and st = "initial_state []", OF _ _ refl refl refl refl refl]
    binary_coercion[where left = "IntNumNode PRIMITIVE_INTEGER 1"
      and right = "IntNumNode PRIMITIVE_INTEGER 2" and op = "''+''"
      and t = PRIMITIVE_INTEGER and st = "initial_state []", OF _ _ refl refl refl refl refl]
  by (simp add: eval_simps is_real_op_def emit_binary_operator_def)

text \<open>
  Claim C5 as stated fails: the division \<open>1 / 2\<close> of two integer operands emits two
  coercions.
\<close>

theorem integer_division_coercion_counterexample:
  "emitted (visit_ExprNode (BinaryOpNode PRIMITIVE_REAL ''/''
       (IntNumNode PRIMITIVE_INTEGER 1) (IntNumNode PRIMITIVE_INTEGER 2))) (initial_state [])
     = [InstrArg ''pushi'' ''1'', Instr ''itof'', InstrArg ''pushi'' ''2'', Instr ''itof'',
        Instr ''fdiv'']"
  by (simp add: eval_simps is_real_op_def emit_binary_operator_def)

section \<open>Stores to array elements\<close>

text \<open>
  Claim C10. An assignment to an array element whose array symbol is found and whose
  index and right-hand side generate without error emits the push of the base handle,
  then for a literal index the right-hand side's code followed at once by \<open>store\<close>,
  and otherwise the index code, \<open>pushi\<close> of the lower bound, \<open>sub\<close>, the right-hand
  side's code followed at once by \<open>storen\<close>. Whatever the types of the target, of the
  array's elements and of the expression, no \<open>itof\<close> follows the expression's code.
\<close>

theorem indexed_store_no_coercion:
  assumes "lookupSymbol (symbolTable st) a = Some arrayEntry"
      and "succeeds (visit_ExprNode expression) st"
      and "succeeds (visit_ExprNode idx) st"
      and "lo = lowBound (arrayDetails arrayEntry)"
  shows "visit_StatementNode
           (AssignStatementNode (VariableNode vt a (Some idx) scope off) expression) st =
         (emitted (push_variable scope off) st @
          (case idx of
             IntNumNode _ n \<Rightarrow>
               emitted (visit_ExprNode expression) st @ [InstrArg ''store'' (to_string (n - lo))]
           | _ \<Rightarrow>
               emitted (visit_ExprNode idx) st @
               [InstrArg ''pushi'' (to_string lo), Instr ''sub''] @
               emitted (visit_ExprNode expression) st @ [Instr ''storen'']),
          Inr st)"
proof -
  have eq: "visit_StatementNode
           (AssignStatementNode (VariableNode vt a (Some idx) scope off) expression) st =
        seq [push_variable scope off,
             (case idx of
                IntNumNode _ v \<Rightarrow>
                  seq [visit_ExprNode expression, emit_arg ''store'' (to_string (v - lo))]
              | _ \<Rightarrow>
                  seq [visit_ExprNode idx, emit_arg ''pushi'' (to_string lo), emit ''sub'',
                       visit_ExprNode expression, emit ''storen''])] st"
    using assms(1) unfolding assms(4) by (simp add: visit_AssignStatementNode_def)
  show ?thesis
    unfolding eq action_Inr_iff
    using assms(2,3)
    by (cases idx) (simp_all del: visit_ExprNode.simps add: seq_simps)
qed

text \<open>The integer literal \<open>7\<close> stored into element \<open>3\<close> of a global array of reals.\<close>

theorem indexed_store_no_coercion_witness:
  "visit_StatementNode
     (AssignStatementNode
        (VariableNode PRIMITIVE_REAL ''a'' (Some (IntNumNode PRIMITIVE_INTEGER 3)) GLOBAL 0)
        (IntNumNode PRIMITIVE_INTEGER 7))
     (initial_state
        [[(''a'', (new_SymbolEntry ''a'' VARIABLE ARRAY)
                    \<lparr>arrayDetails := \<lparr>elementType = PRIMITIVE_REAL, lowBound = 1, highBound = 5,
                                      isInitialized = True\<rparr>\<rparr>)]])
   = ([InstrArg ''pushg'' ''0'', InstrArg ''pushi'' ''7'', InstrArg ''store'' ''2''],
      Inr (initial_state
        [[(''a'', (new_SymbolEntry ''a'' VARIABLE ARRAY)
                    \<lparr>arrayDetails := \<lparr>elementType = PRIMITIVE_REAL, lowBound = 1, highBound = 5,
                                      isInitialized = True\<rparr>\<rparr>)]]))"
  using indexed_store_no_coercion[of
      "initial_state
        [[(''a'', (new_SymbolEntry ''a'' VARIABLE ARRAY)
                    \<lparr>arrayDetails := \<lparr>elementType = PRIMITIVE_REAL, lowBound = 1, highBound = 5,
                                      isInitialized = True\<rparr>\<rparr>)]]"
      "''a''"
      "(new_SymbolEntry ''a'' VARIABLE ARRAY)
                    \<lparr>arrayDetails := \<lparr>elementType = PRIMITIVE_REAL, lowBound = 1, highBound = 5,
                                      isInitialized = True\<rparr>\<rparr>"
      "IntNumNode PRIMITIVE_INTEGER 7" "IntNumNode PRIMITIVE_INTEGER 3" 1 PRIMITIVE_REAL GLOBAL 0]
  by (simp add: eval_simps new_SymbolEntry_def push_variable_def)


section \<open>Array declarations\<close>

lemma foldl_const [simp]: "foldl (\<lambda>c x. c) a xs = a"
  by (induction xs) simp_all


lemma astToSymbolType_array [simp]:
  "fst (astToSymbolType (Some (ArrayTypeNode et low high)) d) = ARRAY"
  by (simp add: astToSymbolType_def Let_def)


lemma int32_add_left [simp]: "int32 (int32 a + b) = int32 (a + b)"
proof -
  have "int32 a + b + 2147483648 = (a + 2147483648) mod 4294967296 + b"
    by (simp add: int32_def)
  then have "(int32 a + b + 2147483648) mod 4294967296 =
             ((a + 2147483648) mod 4294967296 + b) mod 4294967296"
    by (rule arg_cong)
  also have "\<dots> = (a + 2147483648 + b) mod 4294967296"
    by (rule mod_add_left_eq)
  also have "a + 2147483648 + b = a + b + 2147483648"
    by simp
  finally have "(int32 a + b + 2147483648) mod 4294967296 =
                (a + b + 2147483648) mod 4294967296" .
  then show ?thesis
    unfolding int32_def[of "int32 a + b"] int32_def[of "a + b"] by simp
qed




section \<open>Labels drawn from the counter\<close>

text \<open>
  The decimal text of an integer determines the integer and contains no underscore, so
  labels made from different counter values differ. Every statement, whatever its
  nesting, defines labels numbered in the counter values between the counter on entry
  and the counter on exit.
\<close>

lemma digit_char_inj: "d < 10 \<Longrightarrow> d' < 10 \<Longrightarrow> digit_char d = digit_char d' \<Longrightarrow> d = d'"
proof -
  assume a: "d < 10" "d' < 10" "digit_char d = digit_char d'"
  have dist: "distinct ''0123456789''" by simp
  have len: "length ''0123456789'' = 10" by simp
  from a show ?thesis
    unfolding digit_char_def
    using nth_eq_iff_index_eq[OF dist, of d d'] len by simp
qed

lemma digit_char_not_special:
  "d < 10 \<Longrightarrow> digit_char d \<noteq> CHR ''_'' \<and> digit_char d \<noteq> CHR ''-''"
proof -
  assume "d < 10"
  then have "digit_char d \<in> set ''0123456789''"
    unfolding digit_char_def by (intro nth_mem) simp
  then show ?thesis by auto
qed

lemma to_string_nat_nonempty: "to_string_nat n \<noteq> []"
  by (simp add: to_string_nat.simps[of n])

lemma to_string_nat_chars:
  "c \<in> set (to_string_nat n) \<Longrightarrow> c \<noteq> CHR ''_'' \<and> c \<noteq> CHR ''-''"
proof (induction n arbitrary: c rule: to_string_nat.induct)
  case (1 n)
  show ?case
  proof (cases "n < 10")
    case True
    have "to_string_nat n = [digit_char n]"
      using True by (simp add: to_string_nat.simps[of n])
    with "1.prems" have "c = digit_char n" by simp
    with True show ?thesis using digit_char_not_special[of n] by simp
  next
    case False
    have "to_string_nat n = to_string_nat (n div 10) @ [digit_char (n mod 10)]"
      using False by (simp add: to_string_nat.simps[of n])
    then have "set (to_string_nat n) = set (to_string_nat (n div 10)) \<union> {digit_char (n mod 10)}"
      by (simp only: set_append list.set) 
    with "1.prems" have "c \<in> set (to_string_nat (n div 10)) \<or> c = digit_char (n mod 10)"
      by blast
    then show ?thesis
    proof
      assume "c \<in> set (to_string_nat (n div 10))"
      then show ?thesis by (rule "1.IH"[OF False])
    next
      assume "c = digit_char (n mod 10)"
      then show ?thesis using digit_char_not_special[of "n mod 10"] by simp
    qed
  qed
qed

lemma to_string_nat_inj: "to_string_nat m = to_string_nat n \<Longrightarrow> m = n"
proof (induction m arbitrary: n rule: to_string_nat.induct)
  case (1 m)
  show ?case
  proof (cases "m < 10")
    case True
    note m = this
    show ?thesis
    proof (cases "n < 10")
      case True
      with m "1.prems" have "digit_char m = digit_char n"
        by (simp add: to_string_nat.simps[of m] to_string_nat.simps[of n])
      with m True show ?thesis by (rule digit_char_inj)
    next
      case False
      with m "1.prems" have "[digit_char m] = to_string_nat (n div 10) @ [digit_char (n mod 10)]"
        by (simp add: to_string_nat.simps[of m] to_string_nat.simps[of n])
      then have "to_string_nat (n div 10) = []" by simp
      then show ?thesis using to_string_nat_nonempty by blast
    qed
  next
    case False
    note m = this
    show ?thesis
    proof (cases "n < 10")
      case True
      with m "1.prems" have "to_string_nat (m div 10) @ [digit_char (m mod 10)] = [digit_char n]"
        by (simp add: to_string_nat.simps[of m] to_string_nat.simps[of n])
      then have "to_string_nat (m div 10) = []" by simp
      then show ?thesis using to_string_nat_nonempty by blast
    next
      case False
      with m "1.prems" have
        "to_string_nat (m div 10) @ [digit_char (m mod 10)] =
         to_string_nat (n div 10) @ [digit_char (n mod 10)]"
        by (simp add: to_string_nat.simps[of m] to_string_nat.simps[of n])
      then have a: "to_string_nat (m div 10) = to_string_nat (n div 10)"
        and b: "digit_char (m mod 10) = digit_char (n mod 10)" by simp_all
      from a m "1.IH" have "m div 10 = n div 10" by blast
      moreover from b have "m mod 10 = n mod 10"
        by (intro digit_char_inj) simp_all
      ultimately have "m div 10 * 10 + m mod 10 = n div 10 * 10 + n mod 10" by simp
      then show ?thesis by simp
    qed
  qed
qed

lemma to_string_inj: "to_string i = to_string j \<Longrightarrow> i = j"
proof -
  assume h: "to_string i = to_string j"
  have hd_nat: "\<And>n. hd (to_string_nat n) \<noteq> CHR ''-''"
    using to_string_nat_chars to_string_nat_nonempty by (metis hd_in_set)
  show ?thesis
  proof (cases "i < 0")
    case True
    note i = this
    show ?thesis
    proof (cases "j < 0")
      case True
      with i h have "to_string_nat (nat (- i)) = to_string_nat (nat (- j))"
        by (simp add: to_string_def)
      then have "nat (- i) = nat (- j)" by (rule to_string_nat_inj)
      with i True show ?thesis by simp
    next
      case False
      with i h have "CHR ''-'' # to_string_nat (nat (- i)) = to_string_nat (nat j)"
        by (simp add: to_string_def)
      then have "hd (to_string_nat (nat j)) = CHR ''-''" by (metis list.sel(1))
      with hd_nat show ?thesis by blast
    qed
  next
    case False
    note i = this
    show ?thesis
    proof (cases "j < 0")
      case True
      with i h have "to_string_nat (nat i) = CHR ''-'' # to_string_nat (nat (- j))"
        by (simp add: to_string_def)
      then have "hd (to_string_nat (nat i)) = CHR ''-''" by (metis list.sel(1))
      with hd_nat show ?thesis by blast
    next
      case False
      with i h have "to_string_nat (nat i) = to_string_nat (nat j)"
        by (simp add: to_string_def)
      then have "nat i = nat j" by (rule to_string_nat_inj)
      with i False show ?thesis by simp
    qed
  qed
qed

lemma to_string_no_underscore: "CHR ''_'' \<notin> set (to_string i)"
  using to_string_nat_chars by (auto simp: to_string_def)


lemma label_suffix_append:
  assumes "CHR ''_'' \<notin> set d"
  shows "label_suffix (x @ CHR ''_'' # d) = d"
proof -
  have "takeWhile (\<lambda>c. c \<noteq> CHR ''_'') (rev d @ CHR ''_'' # rev x) = rev d"
    using assms by (auto simp: takeWhile_tail)
  then show ?thesis by (simp add: label_suffix_def)
qed

lemma label_suffix_newLabel:
  "label_suffix (fst (newLabel prefix st)) = to_string (labelCounter st)"
  using label_suffix_append[OF to_string_no_underscore, of "''L_'' @ prefix" "labelCounter st"]
  by (simp add: newLabel_def)

lemma take2_newLabel: "take 2 (fst (newLabel prefix st)) = ''L_''"
  by (simp add: newLabel_def)

lemma labels_of_append [simp]: "labels_of (xs @ ys) = labels_of xs @ labels_of ys"
  by (induction xs) (simp_all split: line.splits)

lemma numbered_in_Nil [simp]: "numbered_in N []"
  by (simp add: numbered_in_def)

lemma numbered_in_empty: "numbered_in {} ls \<Longrightarrow> ls = []"
  by (cases ls) (auto simp: numbered_in_def)

lemma numbered_in_mono: "numbered_in A ls \<Longrightarrow> A \<subseteq> B \<Longrightarrow> numbered_in B ls"
  unfolding numbered_in_def by blast

lemma numbered_in_append:
  assumes "numbered_in A xs" and "numbered_in B ys" and "A \<inter> B = {}"
  shows "numbered_in (A \<union> B) (xs @ ys)"
proof -
  have "label_suffix ` set xs \<inter> label_suffix ` set ys = {}"
  proof (rule ccontr)
    assume "label_suffix ` set xs \<inter> label_suffix ` set ys \<noteq> {}"
    then obtain x y where x: "x \<in> set xs" and y: "y \<in> set ys"
      and e: "label_suffix x = label_suffix y" by auto
    from x assms(1) obtain n where n: "n \<in> A" "label_suffix x = to_string n"
      unfolding numbered_in_def by blast
    from y assms(2) obtain m where m: "m \<in> B" "label_suffix y = to_string m"
      unfolding numbered_in_def by blast
    from e n m have "n = m" by (simp add: to_string_inj)
    with n m assms(3) show False by blast
  qed
  with assms(1,2) show ?thesis
    unfolding numbered_in_def by (auto simp: image_iff)
qed

lemma numbered_in_newLabel: "numbered_in {labelCounter st} [fst (newLabel prefix st)]"
  by (simp add: numbered_in_def label_suffix_newLabel take2_newLabel)

lemma numbered_in_distinct: "numbered_in N ls \<Longrightarrow> distinct ls"
  by (simp add: numbered_in_def distinct_map)


lemma labels_ok_iff:
  "labels_ok st (a st) \<longleftrightarrow>
     (succeeds a st \<longrightarrow>
        symbolTable (next_state a st) = symbolTable st \<and>
        labelCounter st \<le> labelCounter (next_state a st) \<and>
        numbered_in {labelCounter st ..< labelCounter (next_state a st)} (labels_of (emitted a st)))"
  by (cases "a st") (auto simp: labels_ok_def succeeds_def next_state_def emitted_def split: sum.splits)

lemma labels_ok_basic [simp]:
  "labels_ok st (c, Inl e)"
  "labels_ok st ([Instr i], Inr st)"
  "labels_ok st ([InstrArg i a], Inr st)"
  "labels_ok st ([], Inr st)"
  by (simp_all add: labels_ok_def)

lemma labels_ok_seq_Cons:
  assumes "labels_ok st (a st)" and "\<And>s. labels_ok s (seq as s)"
  shows "labels_ok st (seq (a # as) st)"
  unfolding labels_ok_iff
proof (intro impI)
  assume ok: "succeeds (seq (a # as)) st"
  then have sa: "succeeds a st" and ss: "succeeds (seq as) (next_state a st)"
    by (simp_all add: succeeds_seq_Cons)
  let ?s1 = "next_state a st"
  let ?s2 = "next_state (seq as) ?s1"
  have n: "next_state (seq (a # as)) st = ?s2"
    using ok by (rule next_state_seq_Cons)
  have e: "emitted (seq (a # as)) st = emitted a st @ emitted (seq as) ?s1"
    using sa by (simp add: emitted_seq_Cons)
  from assms(1) sa have 1: "labelCounter st \<le> labelCounter ?s1"
    "numbered_in {labelCounter st ..< labelCounter ?s1} (labels_of (emitted a st))"
    "symbolTable ?s1 = symbolTable st"
    by (simp_all add: labels_ok_iff)
  from assms(2)[of ?s1] ss have 2: "labelCounter ?s1 \<le> labelCounter ?s2"
    "numbered_in {labelCounter ?s1 ..< labelCounter ?s2} (labels_of (emitted (seq as) ?s1))"
    "symbolTable ?s2 = symbolTable ?s1"
    by (simp_all add: labels_ok_iff)
  have "numbered_in ({labelCounter st ..< labelCounter ?s1} \<union> {labelCounter ?s1 ..< labelCounter ?s2})
          (labels_of (emitted a st) @ labels_of (emitted (seq as) ?s1))"
    using 1(2) 2(2) by (rule numbered_in_append) auto
  moreover have "{labelCounter st ..< labelCounter ?s1} \<union> {labelCounter ?s1 ..< labelCounter ?s2}
                   = {labelCounter st ..< labelCounter ?s2}"
    using 1(1) 2(1) by auto
  ultimately show "symbolTable (next_state (seq (a # as)) st) = symbolTable st \<and>
     labelCounter st \<le> labelCounter (next_state (seq (a # as)) st) \<and>
     numbered_in {labelCounter st..<labelCounter (next_state (seq (a # as)) st)}
       (labels_of (emitted (seq (a # as)) st))"
    using 1(1,3) 2(1,3) by (simp add: n e)
qed

lemma labels_ok_seq_Nil [simp]: "labels_ok st (seq [] st)"
  by simp

lemma labels_ok_seq:
  "(\<And>a s. a \<in> set as \<Longrightarrow> labels_ok s (a s)) \<Longrightarrow> labels_ok st (seq as st)"
  by (induction as arbitrary: st) (simp_all add: labels_ok_seq_Cons)

lemma labels_ok_if:
  "labels_ok st (a st) \<Longrightarrow> labels_ok st (b st) \<Longrightarrow> labels_ok st ((if c then a else b) st)"
  by simp

lemmas labels_ok_intros = labels_ok_if labels_ok_seq_Cons labels_ok_seq_Nil

lemma labels_ok_push_variable [simp]: "labels_ok st (push_variable s off st)"
  by (simp add: push_variable_def)

lemma labels_ok_emit_pop [simp]: "labels_ok st (emit_pop e st)"
  by (simp add: emit_pop_def)

lemma labels_ok_emit_binary_operator [simp]: "labels_ok st (emit_binary_operator op b st)"
  unfolding emit_binary_operator_def by (simp add: labels_ok_intros)

lemma labels_ok_visit_ExprNode: "labels_ok st (visit_ExprNode e st)"
proof (induction e arbitrary: st rule: visit_ExprNode.induct)
  case (5 t ident k scope)
  show ?case
  proof (cases "k = FUNCTION")
    case True
    then show ?thesis by (simp add: labels_ok_intros)
  next
    case False
    then show ?thesis
      by (cases "lookupSymbol (symbolTable st) ident") simp_all
  qed
next
  case (6 t ident index scope off)
  show ?case
  proof (cases "lookupSymbol (symbolTable st) ident")
    case None
    then show ?thesis by simp
  next
    case (Some entry)
    note look = this
    show ?thesis
    proof (cases "kind entry = PARAMETER")
      case True
      with look show ?thesis by simp
    next
      case False
      note notparam = this
      show ?thesis
      proof (cases index)
        case None
        with look show ?thesis by simp
      next
        case (Some idx)
        note idx = this
        show ?thesis
        proof (cases "isInitialized (arrayDetails entry)")
          case False
          with look idx show ?thesis by simp
        next
          case True
          have "\<And>s. labels_ok s ((case idx of
                            IntNumNode _ v \<Rightarrow>
                              emit_arg ''load'' (to_string (v - lowBound (arrayDetails entry)))
                          | _ \<Rightarrow>
                              seq [visit_ExprNode idx,
                                   emit_arg ''pushi'' (to_string (lowBound (arrayDetails entry))),
                                   emit ''sub'',
                                   emit ''loadn'']) s)"
            using 6 look notparam idx True
            by (cases idx) (simp_all del: visit_ExprNode.simps add: labels_ok_intros)
          then have "labels_ok st (seq [push_variable scope (offset entry), (case idx of
                            IntNumNode _ v \<Rightarrow>
                              emit_arg ''load'' (to_string (v - lowBound (arrayDetails entry)))
                          | _ \<Rightarrow>
                              seq [visit_ExprNode idx,
                                   emit_arg ''pushi'' (to_string (lowBound (arrayDetails entry))),
                                   emit ''sub'',
                                   emit ''loadn''])] st)"
            by (intro labels_ok_seq) auto
          with idx look notparam True show ?thesis by simp
        qed
      qed
    qed
  qed
next
  case (7 t op expression)
  then show ?case by (simp add: labels_ok_intros)
next
  case (8 t op left right)
  then show ?case by (simp add: labels_ok_intros)
next
  case (9 t funcName arguments resolved_entry)
  show ?case
  proof (cases resolved_entry)
    case None
    then show ?thesis by simp
  next
    case (Some entry)
    have "\<And>s. labels_ok s (seq (map visit_ExprNode (rev arguments)) s)"
      using 9[OF Some] by (intro labels_ok_seq) auto
    with Some show ?thesis by (simp add: labels_ok_intros)
  qed
qed simp_all


lemma labels_ok_from:
  "labels_ok st (a s) \<longleftrightarrow>
     (succeeds a s \<longrightarrow>
        symbolTable (next_state a s) = symbolTable st \<and>
        labelCounter st \<le> labelCounter (next_state a s) \<and>
        numbered_in {labelCounter st ..< labelCounter (next_state a s)} (labels_of (emitted a s)))"
  by (cases "a s") (auto simp: labels_ok_def succeeds_def next_state_def emitted_def split: sum.splits)

lemma labels_of_visit_ExprNode:
  assumes "succeeds (visit_ExprNode e) st"
  shows "labels_of (emitted (visit_ExprNode e) st) = []"
proof -
  from assms labels_ok_visit_ExprNode[of st e]
  have "numbered_in {} (labels_of (emitted (visit_ExprNode e) st))"
    by (simp add: labels_ok_iff)
  then show ?thesis by (rule numbered_in_empty)
qed

lemma labels_ok_emit_write [simp]: "labels_ok st (emit_write arg st)"
  by (cases arg) (simp_all add: emit_write_def)

lemma labels_ok_store_variable [simp]: "labels_ok st (store_variable a scope st)"
  by (cases "lookupSymbol (symbolTable st) a") (simp_all add: store_variable_def)

lemma labels_ok_visit_ReturnStatementNode: "labels_ok st (visit_ReturnStatementNode v st)"
proof (cases v)
  case None
  then show ?thesis by (simp add: visit_ReturnStatementNode_def labels_ok_intros)
next
  case (Some val)
  have "\<And>s. labels_ok s ((\<lambda>st.
               case currentSubprogramEntry st of
                 None \<Rightarrow> throw ReturnWithNoSubprogramContext st
               | Some entry \<Rightarrow>
                   seq [visit_ExprNode val,
                        if functionReturnType entry = PRIMITIVE_REAL \<and>
                           determinedType val = PRIMITIVE_INTEGER
                        then emit ''itof'' else skip,
                        emit_arg ''storel'' (to_string (- (numParameters entry + 1)))] st) s)"
    subgoal for s
      by (cases "currentSubprogramEntry s")
         (simp_all del: visit_ExprNode.simps add: labels_ok_intros labels_ok_visit_ExprNode)
    done
  with Some show ?thesis
    by (simp add: visit_ReturnStatementNode_def labels_ok_seq_Cons)
qed

lemma labels_ok_visit_ProcedureCallStatementNode:
  "labels_ok st (visit_ProcedureCallStatementNode p args r st)"
proof -
  have w: "\<And>s. labels_ok s (seq (map (\<lambda>arg. seq [visit_ExprNode arg, emit_write arg]) args) s)"
    by (intro labels_ok_seq) (auto simp del: visit_ExprNode.simps
          simp: labels_ok_intros labels_ok_visit_ExprNode)
  have a: "\<And>s. labels_ok s (seq (map visit_ExprNode (rev args)) s)"
    by (intro labels_ok_seq) (auto simp del: visit_ExprNode.simps simp: labels_ok_visit_ExprNode)
  show ?thesis
    using w a
    by (cases r) (simp_all add: visit_ProcedureCallStatementNode_def labels_ok_intros)
qed

lemma labels_ok_visit_AssignStatementNode:
  "labels_ok st (visit_AssignStatementNode v e st)"
proof (cases v)
  case (VariableNode vt a index scope off)
  show ?thesis
  proof (cases index)
    case None
    with VariableNode show ?thesis
      by (simp del: visit_ExprNode.simps
            add: visit_AssignStatementNode_def labels_ok_intros labels_ok_visit_ExprNode)
  next
    case (Some idx)
    note idx = this
    show ?thesis
    proof (cases "lookupSymbol (symbolTable st) a")
      case None
      with VariableNode idx show ?thesis by (simp add: visit_AssignStatementNode_def)
    next
      case (Some arrayEntry)
      have "\<And>s. labels_ok s ((case idx of
                           IntNumNode _ v \<Rightarrow>
                             seq [visit_ExprNode e,
                                  emit_arg ''store''
                                    (to_string (v - lowBound (arrayDetails arrayEntry)))]
                         | _ \<Rightarrow>
                             seq [visit_ExprNode idx,
                                  emit_arg ''pushi'' (to_string (lowBound (arrayDetails arrayEntry))),
                                  emit ''sub'',
                                  visit_ExprNode e,
                                  emit ''storen'']) s)"
        by (cases idx)
           (simp_all del: visit_ExprNode.simps add: labels_ok_intros labels_ok_visit_ExprNode)
      then have "labels_ok st (seq [push_variable scope off, (case idx of
                           IntNumNode _ v \<Rightarrow>
                             seq [visit_ExprNode e,
                                  emit_arg ''store''
                                    (to_string (v - lowBound (arrayDetails arrayEntry)))]
                         | _ \<Rightarrow>
                             seq [visit_ExprNode idx,
                                  emit_arg ''pushi'' (to_string (lowBound (arrayDetails arrayEntry))),
                                  emit ''sub'',
                                  visit_ExprNode e,
                                  emit ''storen''])] st)"
        by (intro labels_ok_seq) auto
      with VariableNode idx Some show ?thesis by (simp add: visit_AssignStatementNode_def)
    qed
  qed
qed (simp_all add: visit_AssignStatementNode_def)


lemma newLabel_counter [simp]:
  "labelCounter (snd (newLabel p st)) = labelCounter st + 1"
  by (simp add: newLabel_def)

lemma labels_ok_if_statement:
  assumes t: "\<And>s. labels_ok s (visit_StatementNode thenStatement s)"
      and e: "\<And>s2 s. elseStatement = Some s2 \<Longrightarrow> labels_ok s (visit_StatementNode s2 s)"
  shows "labels_ok st (visit_StatementNode (IfStatementNode condition thenStatement elseStatement) st)"
proof -
  define st1 where "st1 = snd (newLabel ''ELSE'' st)"
  define st2 where "st2 = snd (newLabel ''END_IF'' st1)"
  define L1 where "L1 = fst (newLabel ''ELSE'' st)"
  define L2 where "L2 = fst (newLabel ''END_IF'' st1)"
  define els where "els = (case elseStatement of None \<Rightarrow> skip | Some s \<Rightarrow> visit_StatementNode s)"
  define jmp where "jmp = (case elseStatement of None \<Rightarrow> skip | Some _ \<Rightarrow> emit_arg ''jump'' L2)"
  define a where "a = seq [visit_ExprNode condition, emit_arg ''jz'' L1,
            visit_StatementNode thenStatement, jmp, emitLabel L1, els, emitLabel L2]"
  have eq: "visit_StatementNode (IfStatementNode condition thenStatement elseStatement) st = a st2"
    by (cases elseStatement)
       (simp_all add: a_def jmp_def els_def L1_def L2_def st1_def st2_def case_prod_beta)
  have lc: "labelCounter st1 = labelCounter st + 1" "labelCounter st2 = labelCounter st + 2"
    by (simp_all add: st1_def st2_def)
  have n1: "numbered_in {labelCounter st} [L1]"
    unfolding L1_def by (rule numbered_in_newLabel)
  have n2: "numbered_in {labelCounter st + 1} [L2]"
    using numbered_in_newLabel[of st1 "''END_IF''"] by (simp add: L2_def lc)
  have jmp: "\<And>s. succeeds jmp s" "\<And>s. next_state jmp s = s" "\<And>s. labels_of (emitted jmp s) = []"
    by (cases elseStatement; simp add: jmp_def)+
  have els: "\<And>s. labels_ok s (els s)"
    using e by (cases elseStatement) (simp_all add: els_def)
  show ?thesis
    unfolding eq labels_ok_from
  proof (intro impI)
    assume ok: "succeeds a st2"
    let ?s3 = "next_state (visit_StatementNode thenStatement) st2"
    let ?s4 = "next_state els ?s3"
    from ok have c: "succeeds (visit_ExprNode condition) st2"
      and th: "succeeds (visit_StatementNode thenStatement) st2"
      and el: "succeeds els ?s3"
      by (simp_all del: visit_ExprNode.simps visit_StatementNode.simps add: a_def seq_simps jmp)
    have ns: "next_state a st2 = ?s4"
      using ok c th el
      by (simp del: visit_ExprNode.simps visit_StatementNode.simps add: a_def seq_simps jmp)
    have em: "labels_of (emitted a st2) =
                labels_of (emitted (visit_StatementNode thenStatement) st2) @ [L1] @
                labels_of (emitted els ?s3) @ [L2]"
      using c th el
      by (simp del: visit_ExprNode.simps visit_StatementNode.simps
            add: a_def seq_simps jmp labels_of_visit_ExprNode)
    from t[of st2] th have 3: "labelCounter st2 \<le> labelCounter ?s3"
      "numbered_in {labelCounter st2 ..< labelCounter ?s3}
         (labels_of (emitted (visit_StatementNode thenStatement) st2))"
      "symbolTable ?s3 = symbolTable st2"
      by (simp_all add: labels_ok_iff)
    from els[of ?s3] el have 4: "labelCounter ?s3 \<le> labelCounter ?s4"
      "numbered_in {labelCounter ?s3 ..< labelCounter ?s4} (labels_of (emitted els ?s3))"
      "symbolTable ?s4 = symbolTable ?s3"
      by (simp_all add: labels_ok_iff)
    have tb: "symbolTable st2 = symbolTable st"
      by (simp add: st2_def st1_def newLabel_def)
    have "numbered_in ({labelCounter ?s3 ..< labelCounter ?s4} \<union> {labelCounter st + 1})
            (labels_of (emitted els ?s3) @ [L2])"
      using 4(2) n2 by (rule numbered_in_append) (use 3(1) lc in auto)
    with n1 have "numbered_in ({labelCounter st} \<union> ({labelCounter ?s3 ..< labelCounter ?s4} \<union> {labelCounter st + 1}))
            ([L1] @ labels_of (emitted els ?s3) @ [L2])"
      by (rule numbered_in_append) (use 3(1) lc in auto)
    with 3(2) have "numbered_in ({labelCounter st2 ..< labelCounter ?s3} \<union>
            ({labelCounter st} \<union> ({labelCounter ?s3 ..< labelCounter ?s4} \<union> {labelCounter st + 1})))
            (labels_of (emitted (visit_StatementNode thenStatement) st2) @
             [L1] @ labels_of (emitted els ?s3) @ [L2])"
      by (rule numbered_in_append) (use 3(1) 4(1) lc in auto)
    then have "numbered_in {labelCounter st ..< labelCounter ?s4} (labels_of (emitted a st2))"
      unfolding em by (rule numbered_in_mono) (use 3(1) 4(1) lc in auto)
    moreover have "labelCounter st \<le> labelCounter ?s4"
      using 3(1) 4(1) lc by simp
    ultimately show "symbolTable (next_state a st2) = symbolTable st \<and>
      labelCounter st \<le> labelCounter (next_state a st2) \<and>
      numbered_in {labelCounter st..<labelCounter (next_state a st2)} (labels_of (emitted a st2))"
      using 3(3) 4(3) tb by (simp add: ns)
  qed
qed

lemma labels_ok_while_statement:
  assumes b: "\<And>s. labels_ok s (visit_StatementNode body s)"
  shows "labels_ok st (visit_StatementNode (WhileStatementNode condition body) st)"
proof -
  define st1 where "st1 = snd (newLabel ''WHILE_START'' st)"
  define st2 where "st2 = snd (newLabel ''WHILE_END'' st1)"
  define L1 where "L1 = fst (newLabel ''WHILE_START'' st)"
  define L2 where "L2 = fst (newLabel ''WHILE_END'' st1)"
  define a where "a = seq [emitLabel L1, visit_ExprNode condition, emit_arg ''jz'' L2,
            visit_StatementNode body, emit_arg ''jump'' L1, emitLabel L2]"
  have eq: "visit_StatementNode (WhileStatementNode condition body) st = a st2"
    by (simp add: a_def L1_def L2_def st1_def st2_def case_prod_beta)
  have lc: "labelCounter st1 = labelCounter st + 1" "labelCounter st2 = labelCounter st + 2"
    by (simp_all add: st1_def st2_def)
  have n1: "numbered_in {labelCounter st} [L1]"
    unfolding L1_def by (rule numbered_in_newLabel)
  have n2: "numbered_in {labelCounter st + 1} [L2]"
    using numbered_in_newLabel[of st1 "''WHILE_END''"] by (simp add: L2_def lc)
  show ?thesis
    unfolding eq labels_ok_from
  proof (intro impI)
    assume ok: "succeeds a st2"
    let ?s3 = "next_state (visit_StatementNode body) st2"
    from ok have c: "succeeds (visit_ExprNode condition) st2"
      and bd: "succeeds (visit_StatementNode body) st2"
      by (simp_all del: visit_ExprNode.simps visit_StatementNode.simps add: a_def seq_simps)
    have ns: "next_state a st2 = ?s3"
      using ok c bd
      by (simp del: visit_ExprNode.simps visit_StatementNode.simps add: a_def seq_simps)
    have em: "labels_of (emitted a st2) =
                [L1] @ labels_of (emitted (visit_StatementNode body) st2) @ [L2]"
      using c bd
      by (simp del: visit_ExprNode.simps visit_StatementNode.simps
            add: a_def seq_simps labels_of_visit_ExprNode)
    from b[of st2] bd have 3: "labelCounter st2 \<le> labelCounter ?s3"
      "numbered_in {labelCounter st2 ..< labelCounter ?s3}
         (labels_of (emitted (visit_StatementNode body) st2))"
      "symbolTable ?s3 = symbolTable st2"
      by (simp_all add: labels_ok_iff)
    have tb: "symbolTable st2 = symbolTable st"
      by (simp add: st2_def st1_def newLabel_def)
    have "numbered_in ({labelCounter st2 ..< labelCounter ?s3} \<union> {labelCounter st + 1})
            (labels_of (emitted (visit_StatementNode body) st2) @ [L2])"
      using 3(2) n2 by (rule numbered_in_append) (use 3(1) lc in auto)
    with n1 have "numbered_in ({labelCounter st} \<union> ({labelCounter st2 ..< labelCounter ?s3} \<union> {labelCounter st + 1}))
            ([L1] @ labels_of (emitted (visit_StatementNode body) st2) @ [L2])"
      by (rule numbered_in_append) (use 3(1) lc in auto)
    then have "numbered_in {labelCounter st ..< labelCounter ?s3} (labels_of (emitted a st2))"
      unfolding em by (rule numbered_in_mono) (use 3(1) lc in auto)
    moreover have "labelCounter st \<le> labelCounter ?s3"
      using 3(1) lc by simp
    ultimately show "symbolTable (next_state a st2) = symbolTable st \<and>
      labelCounter st \<le> labelCounter (next_state a st2) \<and>
      numbered_in {labelCounter st..<labelCounter (next_state a st2)} (labels_of (emitted a st2))"
      using 3(3) tb by (simp add: ns)
  qed
qed

lemma labels_ok_visit_StatementNode: "labels_ok st (visit_StatementNode s st)"
proof (induction s arbitrary: st rule: visit_StatementNode.induct)
  case (1 stmts)
  have "labels_ok st (seq (map (\<lambda>stmt. case stmt of None \<Rightarrow> skip
                                          | Some s \<Rightarrow> visit_StatementNode s) stmts) st)"
  proof (rule labels_ok_seq)
    fix a s
    assume "a \<in> set (map (\<lambda>stmt. case stmt of None \<Rightarrow> skip
                                          | Some s \<Rightarrow> visit_StatementNode s) stmts)"
    then obtain stmt where m: "stmt \<in> set stmts"
      and a: "a = (case stmt of None \<Rightarrow> skip | Some s \<Rightarrow> visit_StatementNode s)" by auto
    show "labels_ok s (a s)"
    proof (cases stmt)
      case None
      with a show ?thesis by simp
    next
      case (Some x)
      with a m "1.IH"[of stmt x s] show ?thesis by simp
    qed
  qed
  then show ?case by simp
next
  case (2 variable expression)
  show ?case by (simp add: labels_ok_visit_AssignStatementNode)
next
  case (3 condition thenStatement elseStatement)
  show ?case
  proof (rule labels_ok_if_statement)
    fix s show "labels_ok s (visit_StatementNode thenStatement s)"
      using 3 by (simp add: newLabel_def)
  next
    fix s2 s assume "elseStatement = Some s2"
    then show "labels_ok s (visit_StatementNode s2 s)"
      using 3 by (simp add: newLabel_def)
  qed
next
  case (4 condition body)
  show ?case
  proof (rule labels_ok_while_statement)
    fix s show "labels_ok s (visit_StatementNode body s)"
      using 4 by (simp add: newLabel_def)
  qed
next
  case (5 procName arguments resolved_entry)
  show ?case by (simp add: labels_ok_visit_ProcedureCallStatementNode)
next
  case (6 returnValue)
  show ?case by (simp add: labels_ok_visit_ReturnStatementNode)
qed

lemma statement_labels_distinct:
  assumes "visit_StatementNode s st = (c, Inr st')"
  shows "distinct (labels_of c)" and "labelCounter st \<le> labelCounter st'"
  using labels_ok_visit_StatementNode[of st s] assms
  by (auto simp: labels_ok_def dest: numbered_in_distinct)

lemma numbered_in_member:
  assumes "numbered_in N ls" and "l \<in> set ls" and "label_suffix l = to_string k"
  shows "k \<in> N"
proof -
  from assms(1,2) obtain n where n: "n \<in> N" "label_suffix l = to_string n"
    unfolding numbered_in_def by blast
  with assms(3) have "k = n" by (simp add: to_string_inj)
  with n show ?thesis by simp
qed

section \<open>Lowering of if statements\<close>

text \<open>
  Claim C8. Let the two labels be the ones \<open>newLabel\<close> makes from the label counter on
  entry. When the condition and the branches generate without error,
  \<open>if cond then s1 else s2\<close> emits the condition's code, one \<open>jz\<close> to the else label,
  the code of \<open>s1\<close>, one \<open>jump\<close> to the end label, the else label, the code of \<open>s2\<close>
  and the end label, in this order; without an else branch it emits the condition's
  code, the \<open>jz\<close>, the code of \<open>s1\<close> and the two labels, with no \<open>jump\<close>. The two
  labels are fresh: they differ from each other and neither is defined inside the code
  of \<open>s1\<close> or \<open>s2\<close>.
\<close>

theorem if_lowering:
  assumes "st2 = st\<lparr>labelCounter := labelCounter st + 2\<rparr>"
      and "elseLabel = ''L_ELSE_'' @ to_string (labelCounter st)"
      and "endIfLabel = ''L_END_IF_'' @ to_string (labelCounter st + 1)"
      and "succeeds (visit_ExprNode condition) st2"
      and "visit_StatementNode thenStatement st2 = (c1, Inr st3)"
  shows "(visit_StatementNode s2 st3 = (c2, Inr st4) \<longrightarrow>
            visit_StatementNode (IfStatementNode condition thenStatement (Some s2)) st =
              (emitted (visit_ExprNode condition) st2 @ [InstrArg ''jz'' elseLabel] @ c1 @
               [InstrArg ''jump'' endIfLabel, Label elseLabel] @ c2 @ [Label endIfLabel],
               Inr st4)
            \<and> elseLabel \<notin> set (labels_of c2) \<and> endIfLabel \<notin> set (labels_of c2))
       \<and> visit_StatementNode (IfStatementNode condition thenStatement None) st =
              (emitted (visit_ExprNode condition) st2 @ [InstrArg ''jz'' elseLabel] @ c1 @
               [Label elseLabel, Label endIfLabel],
               Inr st3)
       \<and> elseLabel \<noteq> endIfLabel
       \<and> elseLabel \<notin> set (labels_of c1) \<and> endIfLabel \<notin> set (labels_of c1)"
proof -
  have eq: "\<And>e. visit_StatementNode (IfStatementNode condition thenStatement e) st =
       seq [visit_ExprNode condition,
            emit_arg ''jz'' elseLabel,
            visit_StatementNode thenStatement,
            (case e of None \<Rightarrow> skip | Some _ \<Rightarrow> emit_arg ''jump'' endIfLabel),
            emitLabel elseLabel,
            (case e of None \<Rightarrow> skip | Some s \<Rightarrow> visit_StatementNode s),
            emitLabel endIfLabel] st2"
    subgoal for e by (cases e) (simp_all add: newLabel_def assms(1,2,3) add.commute)
    done
  have t: "emitted (visit_StatementNode thenStatement) st2 = c1"
          "succeeds (visit_StatementNode thenStatement) st2"
          "next_state (visit_StatementNode thenStatement) st2 = st3"
    using assms(5) by (simp_all add: action_Inr_iff)
  have s1: "label_suffix elseLabel = to_string (labelCounter st)"
    using label_suffix_append[OF to_string_no_underscore, of "''L_ELSE''" "labelCounter st"]
    by (simp add: assms(2))
  have s2: "label_suffix endIfLabel = to_string (labelCounter st + 1)"
    using label_suffix_append[OF to_string_no_underscore, of "''L_END_IF''" "labelCounter st + 1"]
    by (simp add: assms(3))
  have n1: "labelCounter st + 2 \<le> labelCounter st3"
       "numbered_in {labelCounter st + 2 ..< labelCounter st3} (labels_of c1)"
    using labels_ok_visit_StatementNode[of st2 thenStatement] assms(5)
    by (simp_all add: labels_ok_def assms(1))
  have f1: "elseLabel \<notin> set (labels_of c1)" "endIfLabel \<notin> set (labels_of c1)"
    using numbered_in_member[OF n1(2) _ s1] numbered_in_member[OF n1(2) _ s2] by auto
  have 1: "visit_StatementNode s2 st3 = (c2, Inr st4) \<longrightarrow>
            visit_StatementNode (IfStatementNode condition thenStatement (Some s2)) st =
              (emitted (visit_ExprNode condition) st2 @ [InstrArg ''jz'' elseLabel] @ c1 @
               [InstrArg ''jump'' endIfLabel, Label elseLabel] @ c2 @ [Label endIfLabel],
               Inr st4)"
    unfolding eq action_Inr_iff using assms(4) t
    by (simp del: visit_ExprNode.simps visit_StatementNode.simps add: seq_simps)
  have f2: "visit_StatementNode s2 st3 = (c2, Inr st4) \<longrightarrow>
              elseLabel \<notin> set (labels_of c2) \<and> endIfLabel \<notin> set (labels_of c2)"
  proof
    assume e: "visit_StatementNode s2 st3 = (c2, Inr st4)"
    have n2: "numbered_in {labelCounter st3 ..< labelCounter st4} (labels_of c2)"
      using labels_ok_visit_StatementNode[of st3 s2] e by (simp add: labels_ok_def)
    show "elseLabel \<notin> set (labels_of c2) \<and> endIfLabel \<notin> set (labels_of c2)"
      using numbered_in_member[OF n2 _ s1] numbered_in_member[OF n2 _ s2] n1(1) by auto
  qed
  have 2: "visit_StatementNode (IfStatementNode condition thenStatement None) st =
              (emitted (visit_ExprNode condition) st2 @ [InstrArg ''jz'' elseLabel] @ c1 @
               [Label elseLabel, Label endIfLabel],
               Inr st3)"
    unfolding eq action_Inr_iff using assms(4) t
    by (simp del: visit_ExprNode.simps visit_StatementNode.simps add: seq_simps)
  have 3: "elseLabel \<noteq> endIfLabel"
    by (simp add: assms(2,3))
  from 1 2 3 f1 f2 show ?thesis by blast
qed

text \<open>
  An if statement with a bare return as its then branch, with and without the else
  branch \<open>writeln\<close>.
\<close>

theorem if_lowering_witness:
  "visit_StatementNode
     (IfStatementNode (BooleanLiteralNode PRIMITIVE_BOOLEAN True)
        (ReturnStatementNode None)
        (Some (ProcedureCallStatementNode ''writeln'' [] None)))
     (initial_state []) =
     ([InstrArg ''pushi'' ''1'', InstrArg ''jz'' ''L_ELSE_0'', Instr ''return'',
       InstrArg ''jump'' ''L_END_IF_1'', Label ''L_ELSE_0'',
       InstrArg ''pushs'' [CHR 0x22, CHR 0x0A, CHR 0x22], Instr ''writes'',
       Label ''L_END_IF_1''],
      Inr ((initial_state [])\<lparr>labelCounter := 2\<rparr>))
   \<and> visit_StatementNode
     (IfStatementNode (BooleanLiteralNode PRIMITIVE_BOOLEAN True)
        (ReturnStatementNode None) None)
     (initial_state []) =
     ([InstrArg ''pushi'' ''1'', InstrArg ''jz'' ''L_ELSE_0'', Instr ''return'',
       Label ''L_ELSE_0'', Label ''L_END_IF_1''],
      Inr ((initial_state [])\<lparr>labelCounter := 2\<rparr>))"
  using if_lowering[of "(initial_state [])\<lparr>labelCounter := 2\<rparr>" "initial_state []"
      "''L_ELSE_0''" "''L_END_IF_1''" "BooleanLiteralNode PRIMITIVE_BOOLEAN True"
      "ReturnStatementNode None" "[Instr ''return'']" "(initial_state [])\<lparr>labelCounter := 2\<rparr>"
      "ProcedureCallStatementNode ''writeln'' [] None"
      "[InstrArg ''pushs'' [CHR 0x22, CHR 0x0A, CHR 0x22], Instr ''writes'']"
      "(initial_state [])\<lparr>labelCounter := 2\<rparr>"]
  by (simp add: eval_simps visit_ReturnStatementNode_def visit_ProcedureCallStatementNode_def)


section \<open>Subprogram declarations\<close>

text \<open>
  Claim C9. For a subprogram declaration whose head is a procedure and whose symbol
  entry is found, when the parameter list, the local declarations and the body
  generate without error from the state entered for the subprogram, the emitted code is
  the jump over the block, the entry label, the code of the declarations and the body,
  then \<open>return\<close> and the end label: the return instruction is emitted after the body
  and immediately before the end label, whatever the body contains. The declaration as
  a whole generates without error.
\<close>

theorem procedure_ends_with_return:
  assumes "lookupSymbol (symbolTable st) (mangledKey (ProcedureHeadNode n ps)) = Some entry"
      and "st_in = st\<lparr>currentFunctionContext := Some (ProcedureHeadNode n ps),
                       currentSubprogramEntry := Some entry,
                       symbolTable := enterScope (symbolTable st),
                       local_offset := 0, param_offset := 0\<rparr>"
      and "inner = seq [visit_ParameterList ps,
                        visit_Declarations locals,
                        (case body of None \<Rightarrow> skip | Some b \<Rightarrow> visit_StatementNode b)]"
      and "succeeds inner st_in"
  shows "emitted (visit_SubprogramDeclaration
                    (SubprogramDeclaration (ProcedureHeadNode n ps) locals body)) st =
           [InstrArg ''jump'' (mangledName entry @ ''_end''), Label (mangledName entry)] @
           emitted inner st_in @
           [Instr ''return'', Label (mangledName entry @ ''_end'')]
       \<and> succeeds (visit_SubprogramDeclaration
                    (SubprogramDeclaration (ProcedureHeadNode n ps) locals body)) st"
proof -
  let ?b = "(case body of None \<Rightarrow> skip | Some b \<Rightarrow> visit_StatementNode b)"
  have eq: "visit_SubprogramDeclaration
              (SubprogramDeclaration (ProcedureHeadNode n ps) locals body) st =
        seq [emit_arg ''jump'' (mangledName entry @ ''_end''),
             emitLabel (mangledName entry),
             modify (\<lambda>s. s\<lparr>symbolTable := enterScope (symbolTable s),
                            local_offset := 0, param_offset := 0\<rparr>),
             visit_ParameterList ps,
             visit_Declarations locals,
             ?b,
             emit ''return'',
             emitLabel (mangledName entry @ ''_end''),
             modify (\<lambda>s. s\<lparr>symbolTable := exitScope (symbolTable s),
                            currentFunctionContext := currentFunctionContext st,
                            currentSubprogramEntry := currentSubprogramEntry st\<rparr>)]
          (st\<lparr>currentFunctionContext := Some (ProcedureHeadNode n ps),
              currentSubprogramEntry := Some entry\<rparr>)"
    using assms(1) by (simp add: Let_def)
  have in_ok: "succeeds (visit_ParameterList ps) st_in"
     "succeeds (visit_Declarations locals) (next_state (visit_ParameterList ps) st_in)"
     "succeeds ?b (next_state (visit_Declarations locals) (next_state (visit_ParameterList ps) st_in))"
    using assms(4) unfolding assms(3)
    by (simp_all del: visit_Declarations.simps add: seq_simps)
  have in_em: "emitted inner st_in = emitted (visit_ParameterList ps) st_in @
     emitted (visit_Declarations locals) (next_state (visit_ParameterList ps) st_in) @
     emitted ?b (next_state (visit_Declarations locals) (next_state (visit_ParameterList ps) st_in))"
    unfolding assms(3) using in_ok by (simp del: visit_Declarations.simps add: seq_simps)
  show ?thesis
    unfolding emitted_def[of "visit_SubprogramDeclaration _"] succeeds_def[of "visit_SubprogramDeclaration _"] eq
    unfolding emitted_def[symmetric] succeeds_def[symmetric]
    using in_ok unfolding assms(2)
    by (simp del: visit_Declarations.simps add: seq_simps in_em[unfolded assms(2)])
qed


text \<open>A procedure without parameters whose body is the single statement \<open>writeln\<close>.\<close>

theorem procedure_ends_with_return_witness:
  "emitted (visit_SubprogramDeclaration
     (SubprogramDeclaration (ProcedureHeadNode ''p'' []) []
        (Some (CompoundStatementNode [Some (ProcedureCallStatementNode ''writeln'' [] None)]))))
     (initial_state [[(''p_p'', (new_SymbolEntry ''p'' PROCEDURE UNKNOWN_TYPE)\<lparr>mangledName := ''p_p''\<rparr>)]])
   = [InstrArg ''jump'' ''p_p_end'', Label ''p_p'',
      InstrArg ''pushs'' [CHR 0x22, CHR 0x0A, CHR 0x22], Instr ''writes'',
      Instr ''return'', Label ''p_p_end'']"
  using procedure_ends_with_return[of
      "initial_state [[(''p_p'', (new_SymbolEntry ''p'' PROCEDURE UNKNOWN_TYPE)\<lparr>mangledName := ''p_p''\<rparr>)]]"
      "''p''" "[]" "(new_SymbolEntry ''p'' PROCEDURE UNKNOWN_TYPE)\<lparr>mangledName := ''p_p''\<rparr>"
      _ _ "[]"
      "Some (CompoundStatementNode [Some (ProcedureCallStatementNode ''writeln'' [] None)])",
      OF _ refl refl]
  by (simp add: gen_simps)

section \<open>Array accesses and parameters\<close>

text \<open>
  For an array whose symbol is not a parameter, a read with a literal index \<open>n\<close> is
  lowered to the push of the base handle and \<open>load\<close> with the offset \<open>n - lowBound\<close>;
  with any other index, to the push of the base handle, the index code, \<open>pushi\<close> of the
  lower bound, \<open>sub\<close> and \<open>loadn\<close>. A read of a variable whose symbol is a parameter,
  and a store to one that is not indexed, use the frame offset \<open>-(offset + 1)\<close>.
\<close>

lemma array_load_offset:
  assumes "lookupSymbol (symbolTable st) a = Some entry"
      and "kind entry \<noteq> PARAMETER"
      and "isInitialized (arrayDetails entry)"
      and "succeeds (visit_ExprNode idx) st"
      and "lo = lowBound (arrayDetails entry)"
  shows "visit_ExprNode (VariableNode t a (Some idx) scope off) st =
         (emitted (push_variable scope (offset entry)) st @
          (case idx of
             IntNumNode _ n \<Rightarrow> [InstrArg ''load'' (to_string (n - lo))]
           | _ \<Rightarrow>
               emitted (visit_ExprNode idx) st @
               [InstrArg ''pushi'' (to_string lo), Instr ''sub'', Instr ''loadn'']),
          Inr st)"
proof -
  have eq: "visit_ExprNode (VariableNode t a (Some idx) scope off) st =
        seq [push_variable scope (offset entry),
             (case idx of
                IntNumNode _ v \<Rightarrow> emit_arg ''load'' (to_string (v - lo))
              | _ \<Rightarrow>
                  seq [visit_ExprNode idx, emit_arg ''pushi'' (to_string lo), emit ''sub'',
                       emit ''loadn''])] st"
    using assms(1,2,3) unfolding assms(5) by simp
  show ?thesis
    unfolding eq action_Inr_iff
    using assms(4)
    by (cases idx) (simp_all del: visit_ExprNode.simps add: seq_simps)
qed

lemma parameter_read:
  assumes "lookupSymbol (symbolTable st) a = Some entry" and "kind entry = PARAMETER"
  shows "visit_ExprNode (VariableNode t a index scope off) st =
           ([InstrArg ''pushl'' (to_string (- (offset entry + 1)))], Inr st)"
    and "k \<noteq> FUNCTION \<Longrightarrow> visit_ExprNode (IdExprNode t a k scope) st =
           ([InstrArg ''pushl'' (to_string (- (offset entry + 1)))], Inr st)"
  using assms by simp_all

lemma parameter_store:
  assumes "lookupSymbol (symbolTable st) a = Some entry" and "kind entry = PARAMETER"
      and "succeeds (visit_ExprNode expression) st"
  shows "visit_StatementNode (AssignStatementNode (VariableNode vt a None scope off) expression) st =
           (emitted (visit_ExprNode expression) st @
            (if vt = PRIMITIVE_REAL \<and> determinedType expression = PRIMITIVE_INTEGER
             then [Instr ''itof''] else []) @
            [InstrArg ''storel'' (to_string (- (offset entry + 1)))], Inr st)"
proof -
  have s: "store_variable a scope st = ([InstrArg ''storel'' (to_string (- (offset entry + 1)))], Inr st)"
    using assms(1,2) by (simp add: store_variable_def)
  then have s': "emitted (store_variable a scope) st = [InstrArg ''storel'' (to_string (- (offset entry + 1)))]"
     "succeeds (store_variable a scope) st" "next_state (store_variable a scope) st = st"
    by (simp_all add: action_Inr_iff)
  show ?thesis
    unfolding action_Inr_iff using assms(3) s'
    by (simp del: visit_ExprNode.simps add: visit_AssignStatementNode_def seq_simps)
qed

text \<open>
  Claim C3 fails for reads of an array that is a parameter. In the program

  \<^verbatim>\<open>var x: integer; procedure p(a: array[1..5] of integer); begin x := a[3] end; begin end.\<close>

  the read of \<open>a[3]\<close> is lowered to \<open>pushl -1\<close> alone: the visitor for variable
  nodes returns after pushing the parameter's slot, before it looks at the index, so no
  \<open>load\<close> with offset \<open>3 - 1\<close> is emitted.
\<close>

theorem parameter_array_read_drops_index:
  "emitted (visit_ProgramNode
     \<lparr>subprogs =
        [Some (SubprogramDeclaration
           (ProcedureHeadNode ''p''
              [ParameterDeclaration [''a''] (Some (ArrayTypeNode (Some TYPE_INTEGER) 1 5))])
           []
           (Some (CompoundStatementNode
              [Some (AssignStatementNode
                 (VariableNode PRIMITIVE_INTEGER ''x'' None GLOBAL 0)
                 (VariableNode PRIMITIVE_INTEGER ''a'' (Some (IntNumNode PRIMITIVE_INTEGER 3))
                    LOCAL 0))])))],
      decls = [VarDecl (Some (StandardTypeNode TYPE_INTEGER)) [''x'']],
      mainCompoundStmt = Some (CompoundStatementNode [])\<rparr>)
     (initial_state
        [[(''x'', new_SymbolEntry ''x'' VARIABLE PRIMITIVE_INTEGER),
          (''p_p_a'', (new_SymbolEntry ''p'' PROCEDURE UNKNOWN_TYPE)
                        \<lparr>mangledName := ''p_p_a'', numParameters := 1\<rparr>)]])
   = [Instr ''start'', InstrArg ''jump'' ''main_entry'',
      InstrArg ''jump'' ''p_p_a_end'', Label ''p_p_a'',
      InstrArg ''pushl'' ''-1'', InstrArg ''storeg'' ''0'',
      Instr ''return'', Label ''p_p_a_end'',
      Label ''main_entry'', InstrArg ''pushn'' ''1'', Instr ''stop'']"
  by (simp add: gen_simps)

text \<open>
  Visiting a parameter list adds, to the innermost scope, one entry per declared
  identifier in declaration order; started with the parameter counter at \<open>k\<close>, the
  entries carry the offsets \<open>k, k + 1, k + 2, \<dots>\<close>, and a subprogram declaration
  starts the counter at \<open>0\<close>.
\<close>

lemma add_parameters:
  assumes "symbolTable st = s # t"
  shows "seq (map (add_parameter ty ad) ids) st =
           ([], Inr (st\<lparr>param_offset := param_offset st + int (length ids),
                         symbolTable := (s @ parameter_scope (param_offset st) ty ad ids) # t\<rparr>))"
  using assms
proof (induction ids arbitrary: st s)
  case Nil
  then show ?case by simp
next
  case (Cons n ns)
  let ?e = "\<lparr>name = n, kind = PARAMETER, type = ty, offset = param_offset st,
          arrayDetails = (if ty = ARRAY then ad else default_ArrayDetails),
          mangledName = [], numParameters = 0, functionReturnType = UNKNOWN_TYPE\<rparr>"
  let ?st1 = "st\<lparr>param_offset := param_offset st + 1,
                  symbolTable := (s @ [(n, ?e)]) # t\<rparr>"
  have a: "add_parameter ty ad n st = ([], Inr ?st1)"
    using Cons.prems by (simp add: add_parameter_def new_SymbolEntry_def addSymbol_def Let_def)
  have "symbolTable ?st1 = (s @ [(n, ?e)]) # t" by simp
  from Cons.IH[OF this]
  have "seq (map (add_parameter ty ad) ns) ?st1 =
          ([], Inr (?st1\<lparr>param_offset := param_offset ?st1 + int (length ns),
                         symbolTable := ((s @ [(n, ?e)]) @ parameter_scope (param_offset ?st1) ty ad ns) # t\<rparr>))" .
  with a show ?case by (simp add: seq_Cons_Inr add.commute add.left_commute)
qed

lemma visit_ParameterList_scope:
  assumes "symbolTable st = s # t"
  shows "visit_ParameterList ps st =
           ([], Inr (st\<lparr>param_offset := param_offset st + int (length (declared_parameters 0 ps)),
                         symbolTable := (s @ declared_parameters (param_offset st) ps) # t\<rparr>))"
  using assms
proof (induction ps arbitrary: st s)
  case Nil
  then show ?case by (simp add: visit_ParameterList_def)
next
  case (Cons p ps)
  obtain ids ty where p: "p = ParameterDeclaration ids ty" by (cases p)
  let ?t = "fst (astToSymbolType ty default_ArrayDetails)"
  let ?ad = "snd (astToSymbolType ty default_ArrayDetails)"
  let ?st1 = "st\<lparr>param_offset := param_offset st + int (length ids),
                   symbolTable := (s @ parameter_scope (param_offset st) ?t ?ad ids) # t\<rparr>"
  have a: "visit_ParameterDeclaration p st = ([], Inr ?st1)"
    using add_parameters[OF Cons.prems, of ?t ?ad ids] by (simp add: p case_prod_beta)
  have "symbolTable ?st1 = (s @ parameter_scope (param_offset st) ?t ?ad ids) # t" by simp
  from Cons.IH[OF this, unfolded visit_ParameterList_def]
  have b: "seq (map visit_ParameterDeclaration ps) ?st1 =
     ([], Inr (?st1\<lparr>param_offset := param_offset ?st1 + int (length (declared_parameters 0 ps)),
            symbolTable := ((s @ parameter_scope (param_offset st) ?t ?ad ids) @
               declared_parameters (param_offset ?st1) ps) # t\<rparr>))" .
  have len: "\<And>k k' qs. length (declared_parameters k qs) = length (declared_parameters k' qs)"
    subgoal for k k' qs
    proof (induction qs arbitrary: k k')
      case Nil show ?case by simp
    next
      case (Cons q qs)
      obtain i y where "q = ParameterDeclaration i y" by (cases q)
      moreover have "\<And>k k' t ad. length (parameter_scope k t ad i) = length (parameter_scope k' t ad i)"
        subgoal for k k' t ad by (induction i arbitrary: k k') simp_all
        done
      ultimately show ?case using Cons.IH by simp metis
    qed
    done
  have l2: "\<And>k t ad. length (parameter_scope k t ad ids) = length ids"
    subgoal for k t ad by (induction ids arbitrary: k) simp_all
    done
  show ?case
    unfolding visit_ParameterList_def
    using a b len[of "param_offset st + int (length ids)" ps 0]
    by (simp add: seq_Cons_Inr p l2 len[of 0 _ "int (length ids)"] add.assoc)
qed


lemma parameter_scope_offsets:
  "map (\<lambda>(n, e). offset e) (parameter_scope k t ad ns) = map (\<lambda>i. k + int i) [0..<length ns]"
proof (induction ns arbitrary: k)
  case Nil
  show ?case by simp
next
  case (Cons n ns)
  have "map (\<lambda>i. k + int i) [0..<length (n # ns)] =
        k # map (\<lambda>i. (k + 1) + int i) [0..<length ns]"
    by (simp add: upt_rec[of 0] map_Suc_upt[symmetric] del: upt_Suc)
  with Cons.IH[of "k + 1"] show ?case by simp
qed

lemma parameter_scope_entries:
  "(n, e) \<in> set (parameter_scope k t ad ns) \<Longrightarrow> kind e = PARAMETER \<and> name e = n"
  by (induction ns arbitrary: k) auto

lemma length_parameter_scope [simp]: "length (parameter_scope k t ad ns) = length ns"
  by (induction ns arbitrary: k) simp_all

lemma map_upt_shift: "map f [n..<n + m] = map (\<lambda>i. f (n + i)) [0..<m]"
  by (induction m) simp_all

lemma declared_parameters_offsets:
  "map (\<lambda>(n, e). offset e) (declared_parameters k ps) =
     map (\<lambda>i. k + int i) [0..<length (declared_parameters k ps)]"
proof (induction ps arbitrary: k)
  case Nil
  show ?case by simp
next
  case (Cons p ps)
  obtain ids ty where p: "p = ParameterDeclaration ids ty" by (cases p)
  let ?n = "length ids"
  let ?m = "length (declared_parameters (k + int ?n) ps)"
  have "map (\<lambda>i. k + int i) [0..<?n + ?m] =
        map (\<lambda>i. k + int i) [0..<?n] @ map (\<lambda>i. (k + int ?n) + int i) [0..<?m]"
    by (simp add: upt_add_eq_append[of 0 ?n ?m] map_upt_shift add.assoc del: upt_Suc)
  with Cons.IH[of "k + int ?n"] show ?case
    by (simp add: p parameter_scope_offsets)
qed

lemma declared_parameters_entries:
  "(n, e) \<in> set (declared_parameters k ps) \<Longrightarrow> kind e = PARAMETER \<and> name e = n"
proof (induction ps arbitrary: k)
  case Nil
  then show ?case by simp
next
  case (Cons p ps)
  obtain ids ty where p: "p = ParameterDeclaration ids ty" by (cases p)
  from Cons.prems show ?case
    using Cons.IH parameter_scope_entries by (auto simp: p)
qed

text \<open>
  Claim C6 fails for a store to an element of an array that is a parameter. In the
  program

  \<^verbatim>\<open>procedure p(a: array[1..5] of integer; b: integer); begin a[1] := b end; begin end.\<close>

  the parameters \<open>a\<close> and \<open>b\<close> have the offsets \<open>0\<close> and \<open>1\<close> in the scope entered for
  \<open>p\<close>. The read of \<open>b\<close> uses the frame offset \<open>-(1 + 1)\<close>. The slot of \<open>a\<close> is at
  \<open>-(0 + 1)\<close>, but the indexed branch of the assignment visitor pushes the base handle
  from the scope and offset annotated on the variable reference (\<open>pushl 0\<close> here) and
  never consults the kind of the symbol entry.
\<close>

theorem parameter_array_store_uses_reference_offset:
  "emitted (visit_ProgramNode
     \<lparr>subprogs =
        [Some (SubprogramDeclaration
           (ProcedureHeadNode ''p''
              [ParameterDeclaration [''a''] (Some (ArrayTypeNode (Some TYPE_INTEGER) 1 5)),
               ParameterDeclaration [''b''] (Some (StandardTypeNode TYPE_INTEGER))])
           []
           (Some (CompoundStatementNode
              [Some (AssignStatementNode
                 (VariableNode PRIMITIVE_INTEGER ''a'' (Some (IntNumNode PRIMITIVE_INTEGER 1))
                    LOCAL 0)
                 (IdExprNode PRIMITIVE_INTEGER ''b'' PARAMETER LOCAL))])))],
      decls = [],
      mainCompoundStmt = Some (CompoundStatementNode [])\<rparr>)
     (initial_state
        [[(''p_p_a_i'', (new_SymbolEntry ''p'' PROCEDURE UNKNOWN_TYPE)
                        \<lparr>mangledName := ''p_p_a_i'', numParameters := 2\<rparr>)]])
   = [Instr ''start'', InstrArg ''jump'' ''main_entry'',
      InstrArg ''jump'' ''p_p_a_i_end'', Label ''p_p_a_i'',
      InstrArg ''pushl'' ''0'', InstrArg ''pushl'' ''-2'', InstrArg ''store'' ''0'',
      Instr ''return'', Label ''p_p_a_i_end'',
      Label ''main_entry'', Instr ''stop'']"
  by (simp add: gen_simps)

section \<open>Labels of a whole program\<close>

text \<open>
  Declarations define no label and leave the state as it is. A subprogram declaration
  defines its entry label, the labels of its body and its end label, and restores the
  symbol table. The labels of a program are therefore the labels of its subprograms,
  \<open>main_entry\<close>, and labels numbered in the counter values consumed.
\<close>

lemma program_ok_from:
  "program_ok S st (a s) \<longleftrightarrow>
     (succeeds a s \<longrightarrow>
        symbolTable (next_state a s) = symbolTable st \<and>
        labelCounter st \<le> labelCounter (next_state a s) \<and>
        (\<exists>cs. numbered_in {labelCounter st ..< labelCounter (next_state a s)} cs \<and>
              mset (labels_of (emitted a s)) = mset cs + mset S))"
  by (cases "a s") (auto simp: program_ok_def succeeds_def next_state_def emitted_def split: sum.splits)

lemma labels_ok_program_ok: "labels_ok st r \<Longrightarrow> program_ok [] st r"
  by (auto simp: labels_ok_def program_ok_def split: sum.splits)

lemma program_ok_emitLabel [simp]: "program_ok [l] st ([Label l], Inr st)"
  by (auto simp: program_ok_def intro!: exI[of _ "[]"])

lemma program_ok_seq_Cons:
  assumes "program_ok S1 st (a st)"
      and "\<And>s. symbolTable s = symbolTable st \<Longrightarrow> program_ok S2 s (seq as s)"
  shows "program_ok (S1 @ S2) st (seq (a # as) st)"
  unfolding program_ok_from
proof (intro impI)
  assume ok: "succeeds (seq (a # as)) st"
  then have sa: "succeeds a st" and ss: "succeeds (seq as) (next_state a st)"
    by (simp_all add: succeeds_seq_Cons)
  let ?s1 = "next_state a st"
  let ?s2 = "next_state (seq as) ?s1"
  have n: "next_state (seq (a # as)) st = ?s2"
    using ok by (rule next_state_seq_Cons)
  have e: "emitted (seq (a # as)) st = emitted a st @ emitted (seq as) ?s1"
    using sa by (simp add: emitted_seq_Cons)
  from assms(1) sa obtain c1 where 1: "symbolTable ?s1 = symbolTable st"
    "labelCounter st \<le> labelCounter ?s1"
    "numbered_in {labelCounter st ..< labelCounter ?s1} c1"
    "mset (labels_of (emitted a st)) = mset c1 + mset S1"
    unfolding program_ok_from by blast
  from assms(2)[OF 1(1)] ss obtain c2 where 2: "symbolTable ?s2 = symbolTable ?s1"
    "labelCounter ?s1 \<le> labelCounter ?s2"
    "numbered_in {labelCounter ?s1 ..< labelCounter ?s2} c2"
    "mset (labels_of (emitted (seq as) ?s1)) = mset c2 + mset S2"
    unfolding program_ok_from by blast
  have "numbered_in ({labelCounter st ..< labelCounter ?s1} \<union> {labelCounter ?s1 ..< labelCounter ?s2})
          (c1 @ c2)"
    using 1(3) 2(3) by (rule numbered_in_append) auto
  moreover have "{labelCounter st ..< labelCounter ?s1} \<union> {labelCounter ?s1 ..< labelCounter ?s2}
                   = {labelCounter st ..< labelCounter ?s2}"
    using 1(2) 2(2) by auto
  ultimately have c: "numbered_in {labelCounter st ..< labelCounter ?s2} (c1 @ c2)" by simp
  have m: "mset (labels_of (emitted (seq (a # as)) st)) = mset (c1 @ c2) + mset (S1 @ S2)"
    by (simp add: e 1(4) 2(4))
  show "symbolTable (next_state (seq (a # as)) st) = symbolTable st \<and>
     labelCounter st \<le> labelCounter (next_state (seq (a # as)) st) \<and>
     (\<exists>cs. numbered_in {labelCounter st..<labelCounter (next_state (seq (a # as)) st)} cs \<and>
           mset (labels_of (emitted (seq (a # as)) st)) = mset cs + mset (S1 @ S2))"
    unfolding n using 1(1,2) 2(1,2) c m by auto
qed

lemma program_ok_seq_Cons_Nil:
  assumes "program_ok [] st (a st)"
      and "\<And>s. symbolTable s = symbolTable st \<Longrightarrow> program_ok S s (seq as s)"
  shows "program_ok S st (seq (a # as) st)"
  using program_ok_seq_Cons[of "[]" st a S as] assms by simp

lemma labels_ok_allocate_array [simp]: "labels_ok st (allocate_array n i st)"
  by (cases "lookupSymbol (symbolTable st) i")
     (simp_all add: allocate_array_def labels_ok_intros)

lemma labels_ok_visit_VarDecl: "labels_ok st (visit_VarDecl d st)"
proof -
  obtain ty ids where d: "d = VarDecl ty ids" by (cases d)
  have 1: "\<And>s. labels_ok s ((\<lambda>st.
            if \<not> isGlobalScope (symbolTable st) then
              (case astToSymbolType ty default_ArrayDetails of (var_type, ad) \<Rightarrow>
                 let varCount = foldl (\<lambda>c ident. if var_type = ARRAY then c else c + 1)
                                  (0::int) ids
                 in if varCount > 0 then emit_arg ''pushn'' (to_string varCount) st
                    else skip st)
            else skip st) s)"
    by (simp add: case_prod_beta Let_def)
  have 2: "\<And>s. labels_ok s ((case ty of
             Some (ArrayTypeNode et low high) \<Rightarrow>
               (let array_size = int32 (int32 (high - low) + 1) in
                if array_size \<le> 0 then throw ArraySizeMustBePositive
                else seq (map (allocate_array array_size) ids))
           | _ \<Rightarrow> skip) s)"
    subgoal for s
      by (cases ty; simp split: TypeNode.splits add: Let_def)
         (auto intro!: labels_ok_seq)
    done
  show ?thesis
    unfolding d visit_VarDecl.simps
    by (intro labels_ok_seq) (use 1 2 in auto)
qed

lemma labels_ok_visit_Declarations: "labels_ok st (visit_Declarations ds st)"
proof -
  have 1: "\<And>s. labels_ok s ((\<lambda>st.
            if isGlobalScope (symbolTable st) then
              (if ds \<noteq> [] then
                 (let varCount =
                        foldl (\<lambda>c decl. case decl of VarDecl type_node identifiers \<Rightarrow>
                                 if is_ArrayTypeNode type_node then c else c + int (length identifiers))
                          (0::int) ds
                  in if varCount > 0 then emit_arg ''pushn'' (to_string varCount) st
                     else skip st)
               else skip st)
            else skip st) s)"
    by (simp add: Let_def)
  have 2: "\<And>s. labels_ok s (seq (map visit_VarDecl ds) s)"
    by (intro labels_ok_seq) (auto simp del: visit_VarDecl.simps simp: labels_ok_visit_VarDecl)
  show ?thesis
    unfolding visit_Declarations.simps
    by (intro labels_ok_seq) (use 1 2 in auto)
qed


lemma program_ok_visit_SubprogramDeclaration:
  "program_ok (subprogram_labels (symbolTable st) [Some d]) st (visit_SubprogramDeclaration d st)"
proof -
  obtain head locals body where d: "d = SubprogramDeclaration head locals body" by (cases d)
  show ?thesis
  proof (cases "lookupSymbol (symbolTable st) (mangledKey head)")
    case None
    then have "visit_SubprogramDeclaration d st = ([], Inl (SubprogramEntryNotFound (head_name head)))"
      by (simp add: d Let_def)
    then show ?thesis by (simp add: program_ok_def)
  next
    case (Some entry)
    define m where "m = mangledName entry"
    define bd where "bd = (case body of None \<Rightarrow> skip | Some b \<Rightarrow> visit_StatementNode b)"
    define ret where "ret = (if is_ProcedureHeadNode head then emit ''return'' else skip)"
    define st2 where "st2 = st\<lparr>currentFunctionContext := Some head,
                                currentSubprogramEntry := Some entry\<rparr>"
    define s3 where "s3 = st2\<lparr>symbolTable := enterScope (symbolTable st2),
                               local_offset := 0, param_offset := 0\<rparr>"
    define a where "a = seq [emit_arg ''jump'' (m @ ''_end''),
             emitLabel m,
             modify (\<lambda>s. s\<lparr>symbolTable := enterScope (symbolTable s),
                            local_offset := 0, param_offset := 0\<rparr>),
             visit_ParameterList (head_arguments head),
             visit_Declarations locals,
             bd,
             ret,
             emitLabel (m @ ''_end''),
             modify (\<lambda>s. s\<lparr>symbolTable := exitScope (symbolTable s),
                            currentFunctionContext := currentFunctionContext st,
                            currentSubprogramEntry := currentSubprogramEntry st\<rparr>)]"
    have eq: "visit_SubprogramDeclaration d st = a st2"
      using Some by (simp add: d Let_def a_def st2_def m_def bd_def ret_def)
    have S: "subprogram_labels (symbolTable st) [Some d] = [m, m @ ''_end'']"
      using Some by (simp add: d m_def)
    have ret: "\<And>s. succeeds ret s" "\<And>s. next_state ret s = s" "\<And>s. emitted ret s = (if is_ProcedureHeadNode head then [Instr ''return''] else [])"
      by (simp_all add: ret_def)
    have t3: "symbolTable s3 = [] # symbolTable st"
      by (simp add: s3_def st2_def enterScope_def)
    define s4 where "s4 = s3\<lparr>param_offset := param_offset s3 +
                                int (length (declared_parameters 0 (head_arguments head))),
                         symbolTable := ([] @ declared_parameters (param_offset s3) (head_arguments head))
                                        # symbolTable st\<rparr>"
    have p: "visit_ParameterList (head_arguments head) s3 = ([], Inr s4)"
      unfolding s4_def by (rule visit_ParameterList_scope[OF t3])
    then have p': "succeeds (visit_ParameterList (head_arguments head)) s3"
      "next_state (visit_ParameterList (head_arguments head)) s3 = s4"
      "emitted (visit_ParameterList (head_arguments head)) s3 = []"
      by (simp_all add: action_Inr_iff)
    have lc4: "labelCounter s4 = labelCounter st"
      by (simp add: s4_def s3_def st2_def)
    have bd_ok: "\<And>s. labels_ok s (bd s)"
      by (cases body) (simp_all add: bd_def labels_ok_visit_StatementNode)
    show ?thesis
      unfolding eq S program_ok_from
    proof (intro impI)
      assume ok: "succeeds a st2"
      let ?s5 = "next_state (visit_Declarations locals) s4"
      let ?s6 = "next_state bd ?s5"
      let ?s7 = "?s6\<lparr>symbolTable := exitScope (symbolTable ?s6),
                            currentFunctionContext := currentFunctionContext st,
                            currentSubprogramEntry := currentSubprogramEntry st\<rparr>"
      from ok have dok: "succeeds (visit_Declarations locals) s4"
        and bok: "succeeds bd ?s5"
        by (simp_all del: visit_Declarations.simps
              add: a_def seq_simps p' ret s3_def[symmetric])
      have ns: "next_state a st2 = ?s7"
        using ok dok bok
        by (simp del: visit_Declarations.simps add: a_def seq_simps p' ret s3_def[symmetric])
      have em: "labels_of (emitted a st2) =
                  [m] @ labels_of (emitted (visit_Declarations locals) s4) @
                  labels_of (emitted bd ?s5) @ [m @ ''_end'']"
        using dok bok
        by (simp del: visit_Declarations.simps add: a_def seq_simps p' ret s3_def[symmetric])
      from labels_ok_visit_Declarations[of s4 locals] dok
      have 5: "symbolTable ?s5 = symbolTable s4" "labelCounter s4 \<le> labelCounter ?s5"
        "numbered_in {labelCounter s4 ..< labelCounter ?s5}
           (labels_of (emitted (visit_Declarations locals) s4))"
        by (simp_all add: labels_ok_iff)
      from bd_ok[of ?s5] bok
      have 6: "symbolTable ?s6 = symbolTable ?s5" "labelCounter ?s5 \<le> labelCounter ?s6"
        "numbered_in {labelCounter ?s5 ..< labelCounter ?s6} (labels_of (emitted bd ?s5))"
        by (simp_all add: labels_ok_iff)
      have tb: "symbolTable ?s7 = symbolTable st"
        using 5(1) 6(1) by (simp add: s4_def exitScope_def)
      have "numbered_in ({labelCounter s4 ..< labelCounter ?s5} \<union> {labelCounter ?s5 ..< labelCounter ?s6})
              (labels_of (emitted (visit_Declarations locals) s4) @ labels_of (emitted bd ?s5))"
        using 5(3) 6(3) by (rule numbered_in_append) auto
      moreover have "{labelCounter s4 ..< labelCounter ?s5} \<union> {labelCounter ?s5 ..< labelCounter ?s6}
                      = {labelCounter st ..< labelCounter ?s7}"
        using 5(2) 6(2) lc4 by auto
      ultimately have c: "numbered_in {labelCounter st ..< labelCounter ?s7}
              (labels_of (emitted (visit_Declarations locals) s4) @ labels_of (emitted bd ?s5))"
        by simp
      have ms: "mset (labels_of (emitted a st2)) =
              mset (labels_of (emitted (visit_Declarations locals) s4) @ labels_of (emitted bd ?s5))
              + mset [m, m @ ''_end'']"
        by (simp add: em)
      have le: "labelCounter st \<le> labelCounter ?s7"
        using 5(2) 6(2) lc4 by simp
      show "symbolTable (next_state a st2) = symbolTable st \<and>
         labelCounter st \<le> labelCounter (next_state a st2) \<and>
         (\<exists>cs. numbered_in {labelCounter st..<labelCounter (next_state a st2)} cs \<and>
               mset (labels_of (emitted a st2)) = mset cs + mset [m, m @ ''_end''])"
        unfolding ns using tb le c ms by blast
    qed
  qed
qed

lemma program_ok_visit_SubprogramDeclarations:
  "program_ok (subprogram_labels (symbolTable st) ds) st (visit_SubprogramDeclarations ds st)"
  unfolding visit_SubprogramDeclarations_def
proof (induction ds arbitrary: st)
  case Nil
  show ?case by (auto simp: program_ok_def intro!: exI[of _ "[]"])
next
  case (Cons x ds)
  show ?case
  proof (cases x)
    case None
    have "program_ok ([] @ subprogram_labels (symbolTable st) ds) st
            (seq (skip # map (\<lambda>subprog. case subprog of None \<Rightarrow> skip
                          | Some d \<Rightarrow> visit_SubprogramDeclaration d) ds) st)"
    proof (rule program_ok_seq_Cons)
      show "program_ok [] st (skip st)" by (auto simp: program_ok_def intro!: exI[of _ "[]"])
    next
      fix s :: gen_state assume "symbolTable s = symbolTable st"
      with Cons.IH[of s] show "program_ok (subprogram_labels (symbolTable st) ds) s
         (seq (map (\<lambda>subprog. case subprog of None \<Rightarrow> skip
                          | Some d \<Rightarrow> visit_SubprogramDeclaration d) ds) s)" by simp
    qed
    with None show ?thesis by simp
  next
    case (Some d)
    obtain head locals body where d: "d = SubprogramDeclaration head locals body" by (cases d)
    have "program_ok (subprogram_labels (symbolTable st) [Some d] @ subprogram_labels (symbolTable st) ds) st
            (seq (visit_SubprogramDeclaration d # map (\<lambda>subprog. case subprog of None \<Rightarrow> skip
                          | Some d \<Rightarrow> visit_SubprogramDeclaration d) ds) st)"
    proof (rule program_ok_seq_Cons)
      show "program_ok (subprogram_labels (symbolTable st) [Some d]) st (visit_SubprogramDeclaration d st)"
        by (rule program_ok_visit_SubprogramDeclaration)
    next
      fix s :: gen_state assume "symbolTable s = symbolTable st"
      with Cons.IH[of s] show "program_ok (subprogram_labels (symbolTable st) ds) s
         (seq (map (\<lambda>subprog. case subprog of None \<Rightarrow> skip
                          | Some d \<Rightarrow> visit_SubprogramDeclaration d) ds) s)" by simp
    qed
    with Some d show ?thesis by (simp del: visit_SubprogramDeclaration.simps)
  qed
qed


lemma program_ok_visit_ProgramNode:
  "program_ok (subprogram_labels (symbolTable st) (subprogs P) @ [''main_entry'']) st
     (visit_ProgramNode P st)"
proof -
  define main where
    "main = (case mainCompoundStmt P of None \<Rightarrow> skip | Some s \<Rightarrow> visit_StatementNode s)"
  define jmp where
    "jmp = (if subprogs P \<noteq> [] then emit_arg ''jump'' ''main_entry'' else skip)"
  have main_ok: "\<And>s. labels_ok s (main s)"
    by (cases "mainCompoundStmt P") (simp_all add: main_def labels_ok_visit_StatementNode)
  have tail3: "\<And>s. labels_ok s (seq [visit_Declarations (decls P), main, emit ''stop''] s)"
    by (intro labels_ok_seq)
       (auto simp del: visit_Declarations.simps simp: labels_ok_visit_Declarations main_ok)
  have tail2: "\<And>s. program_ok ([''main_entry''] @ []) s
      (seq [emitLabel ''main_entry'', visit_Declarations (decls P), main, emit ''stop''] s)"
    by (rule program_ok_seq_Cons)
       (simp_all del: visit_Declarations.simps add: labels_ok_program_ok tail3)
  have tail1: "\<And>s. symbolTable s = symbolTable st \<Longrightarrow>
      program_ok (subprogram_labels (symbolTable st) (subprogs P) @ [''main_entry'']) s
      (seq [visit_SubprogramDeclarations (subprogs P),
            emitLabel ''main_entry'', visit_Declarations (decls P), main, emit ''stop''] s)"
    subgoal for s
      using program_ok_seq_Cons[of "subprogram_labels (symbolTable s) (subprogs P)" s
          "visit_SubprogramDeclarations (subprogs P)" "[''main_entry'']"
          "[emitLabel ''main_entry'', visit_Declarations (decls P), main, emit ''stop'']"]
        program_ok_visit_SubprogramDeclarations[of s "subprogs P"] tail2
      by (simp del: visit_Declarations.simps)
    done
  have jmp_ok: "program_ok [] st (jmp st)"
    by (simp add: jmp_def labels_ok_program_ok)
  have tail0: "\<And>s. symbolTable s = symbolTable st \<Longrightarrow>
      program_ok (subprogram_labels (symbolTable st) (subprogs P) @ [''main_entry'']) s
      (seq [jmp, visit_SubprogramDeclarations (subprogs P),
            emitLabel ''main_entry'', visit_Declarations (decls P), main, emit ''stop''] s)"
    subgoal for s
    proof (rule program_ok_seq_Cons_Nil)
      show "program_ok [] s (jmp s)" by (simp add: jmp_def labels_ok_program_ok)
    next
      fix s' :: gen_state
      assume a: "symbolTable s = symbolTable st" and b: "symbolTable s' = symbolTable s"
      then have "symbolTable s' = symbolTable st" by simp
      then show "program_ok (subprogram_labels (symbolTable st) (subprogs P) @ [''main_entry'']) s'
        (seq [visit_SubprogramDeclarations (subprogs P),
            emitLabel ''main_entry'', visit_Declarations (decls P), main, emit ''stop''] s')"
        by (rule tail1)
    qed
    done
  have "program_ok (subprogram_labels (symbolTable st) (subprogs P) @ [''main_entry'']) st
      (seq [emit ''start'', jmp, visit_SubprogramDeclarations (subprogs P),
            emitLabel ''main_entry'', visit_Declarations (decls P), main, emit ''stop''] st)"
  proof (rule program_ok_seq_Cons_Nil)
    show "program_ok [] st (emit ''start'' st)" by (simp add: labels_ok_program_ok)
  next
    fix s :: gen_state
    assume "symbolTable s = symbolTable st"
    then show "program_ok (subprogram_labels (symbolTable st) (subprogs P) @ [''main_entry'']) s
      (seq [jmp, visit_SubprogramDeclarations (subprogs P),
            emitLabel ''main_entry'', visit_Declarations (decls P), main, emit ''stop''] s)"
      by (rule tail0)
  qed
  then show ?thesis
    by (simp del: visit_Declarations.simps add: visit_ProgramNode_def main_def jmp_def)
qed

text \<open>
  A mangled key begins with \<open>f_\<close> or \<open>p_\<close>. So when the symbol table agrees with the
  declarations, no subprogram label begins with \<open>L_\<close> and none is \<open>main_entry\<close>.
\<close>

lemma take_2_mangledKey:
  "take 2 (mangledKey head @ s) = (if is_FunctionHeadNode head then ''f_'' else ''p_'')"
  by (simp add: mangledKey_def)

lemma subprogram_labels_prefix:
  "mangled_names_agree t ds \<Longrightarrow> l \<in> set (subprogram_labels t ds) \<Longrightarrow>
   take 2 l = ''f_'' \<or> take 2 l = ''p_''"
proof (induction t ds rule: subprogram_labels.induct)
  case (3 t head locals body ds)
  show ?case
  proof (cases "lookupSymbol t (mangledKey head)")
    case None
    with 3 show ?thesis by simp
  next
    case (Some entry)
    with "3.prems" have e: "mangledName entry = mangledKey head"
      and r: "mangled_names_agree t ds"
      and l: "l = mangledKey head \<or> l = mangledKey head @ ''_end'' \<or>
              l \<in> set (subprogram_labels t ds)"
      by auto
    from l show ?thesis
    proof (elim disjE)
      assume "l = mangledKey head"
      then have "take 2 l = take 2 (mangledKey head @ [])" by simp
      then show ?thesis unfolding take_2_mangledKey by simp
    next
      assume "l = mangledKey head @ ''_end''"
      then have "take 2 l = take 2 (mangledKey head @ ''_end'')" by simp
      then show ?thesis unfolding take_2_mangledKey by simp
    next
      assume "l \<in> set (subprogram_labels t ds)"
      with r "3.IH" show ?thesis by simp
    qed
  qed
qed simp_all

text \<open>
  The labels drawn from the counter are pairwise distinct and begin with \<open>L_\<close>. So
  every label of a generated program is distinct, provided the symbol table agrees with
  the declarations and the labels of the declared subprograms (each mangled name and
  each mangled name followed by \<open>_end\<close>) are pairwise distinct.
\<close>

lemma program_labels_distinct:
  assumes "succeeds (visit_ProgramNode P) st"
      and "mangled_names_agree (symbolTable st) (subprogs P)"
      and "distinct (subprogram_labels (symbolTable st) (subprogs P))"
  shows "distinct (labels_of (emitted (visit_ProgramNode P) st))"
proof -
  let ?S = "subprogram_labels (symbolTable st) (subprogs P) @ [''main_entry'']"
  from program_ok_visit_ProgramNode[of st P] assms(1)
  obtain cs where cs: "numbered_in {labelCounter st ..< labelCounter (next_state (visit_ProgramNode P) st)} cs"
    and ms: "mset (labels_of (emitted (visit_ProgramNode P) st)) = mset cs + mset ?S"
    unfolding program_ok_from by blast
  have p: "\<forall>l\<in>set (subprogram_labels (symbolTable st) (subprogs P)).
             take 2 l \<noteq> ''L_'' \<and> l \<noteq> ''main_entry''"
    using subprogram_labels_prefix[OF assms(2)] by fastforce
  have d1: "distinct cs" using cs by (rule numbered_in_distinct)
  have d2: "distinct ?S" using assms(3) p by auto
  have "\<forall>l\<in>set cs. take 2 l = ''L_''"
    using cs unfolding numbered_in_def by blast
  with p have d3: "set cs \<inter> set ?S = {}" by auto
  from ms have "mset (labels_of (emitted (visit_ProgramNode P) st)) = mset (cs @ ?S)" by simp
  then have "distinct (labels_of (emitted (visit_ProgramNode P) st)) = distinct (cs @ ?S)"
    by (rule mset_eq_imp_distinct_iff)
  with d1 d2 d3 show ?thesis by simp
qed

text \<open>
  The program \<^verbatim>\<open>procedure p; begin if true then return end; begin while false do begin end end.\<close>
\<close>

lemma program_labels_distinct_example:
  "distinct (labels_of (emitted (visit_ProgramNode
     \<lparr>subprogs =
        [Some (SubprogramDeclaration (ProcedureHeadNode ''p'' []) []
           (Some (CompoundStatementNode
              [Some (IfStatementNode (BooleanLiteralNode PRIMITIVE_BOOLEAN True)
                       (ReturnStatementNode None) None)])))],
      decls = [],
      mainCompoundStmt = Some (CompoundStatementNode
        [Some (WhileStatementNode (BooleanLiteralNode PRIMITIVE_BOOLEAN False)
                 (CompoundStatementNode []))])\<rparr>)
     (initial_state
        [[(''p_p'', (new_SymbolEntry ''p'' PROCEDURE UNKNOWN_TYPE)\<lparr>mangledName := ''p_p''\<rparr>)]])))
   \<and> labels_of (emitted (visit_ProgramNode
     \<lparr>subprogs =
        [Some (SubprogramDeclaration (ProcedureHeadNode ''p'' []) []
           (Some (CompoundStatementNode
              [Some (IfStatementNode (BooleanLiteralNode PRIMITIVE_BOOLEAN True)
                       (ReturnStatementNode None) None)])))],
      decls = [],
      mainCompoundStmt = Some (CompoundStatementNode
        [Some (WhileStatementNode (BooleanLiteralNode PRIMITIVE_BOOLEAN False)
                 (CompoundStatementNode []))])\<rparr>)
     (initial_state
        [[(''p_p'', (new_SymbolEntry ''p'' PROCEDURE UNKNOWN_TYPE)\<lparr>mangledName := ''p_p''\<rparr>)]]))
     = [''p_p'', ''L_ELSE_0'', ''L_END_IF_1'', ''p_p_end'', ''main_entry'',
        ''L_WHILE_START_2'', ''L_WHILE_END_3'']"
  using program_labels_distinct[of
     "\<lparr>subprogs =
        [Some (SubprogramDeclaration (ProcedureHeadNode ''p'' []) []
           (Some (CompoundStatementNode
              [Some (IfStatementNode (BooleanLiteralNode PRIMITIVE_BOOLEAN True)
                       (ReturnStatementNode None) None)])))],
      decls = [],
      mainCompoundStmt = Some (CompoundStatementNode
        [Some (WhileStatementNode (BooleanLiteralNode PRIMITIVE_BOOLEAN False)
                 (CompoundStatementNode []))])\<rparr>"
     "initial_state
        [[(''p_p'', (new_SymbolEntry ''p'' PROCEDURE UNKNOWN_TYPE)\<lparr>mangledName := ''p_p''\<rparr>)]]"]
  by (simp add: gen_simps)

text \<open>
  Claim C4. Not every label of a generated program is distinct: the end label of a
  subprogram is its mangled name followed by \<open>_end\<close>, which is also the mangled name of
  a subprogram whose name has that suffix. In the program

  \<^verbatim>\<open>procedure foo; begin end; procedure foo_end; begin end; begin end.\<close>

  the symbol table agrees with the declarations, generation completes, and the end
  label of \<open>foo\<close> and the entry label of \<open>foo_end\<close> are both \<open>p_foo_end\<close>.
\<close>

theorem end_label_collides_with_entry_label:
  "mangled_names_agree
     [[(''p_foo'', (new_SymbolEntry ''foo'' PROCEDURE UNKNOWN_TYPE)\<lparr>mangledName := ''p_foo''\<rparr>),
       (''p_foo_end'', (new_SymbolEntry ''foo_end'' PROCEDURE UNKNOWN_TYPE)
                         \<lparr>mangledName := ''p_foo_end''\<rparr>)]]
     [Some (SubprogramDeclaration (ProcedureHeadNode ''foo'' []) []
              (Some (CompoundStatementNode []))),
      Some (SubprogramDeclaration (ProcedureHeadNode ''foo_end'' []) []
              (Some (CompoundStatementNode [])))]
   \<and> succeeds (visit_ProgramNode
     \<lparr>subprogs =
        [Some (SubprogramDeclaration (ProcedureHeadNode ''foo'' []) []
                 (Some (CompoundStatementNode []))),
         Some (SubprogramDeclaration (ProcedureHeadNode ''foo_end'' []) []
                 (Some (CompoundStatementNode [])))],
      decls = [],
      mainCompoundStmt = Some (CompoundStatementNode [])\<rparr>)
     (initial_state
        [[(''p_foo'', (new_SymbolEntry ''foo'' PROCEDURE UNKNOWN_TYPE)\<lparr>mangledName := ''p_foo''\<rparr>),
          (''p_foo_end'', (new_SymbolEntry ''foo_end'' PROCEDURE UNKNOWN_TYPE)
                            \<lparr>mangledName := ''p_foo_end''\<rparr>)]])
   \<and> labels_of (emitted (visit_ProgramNode
     \<lparr>subprogs =
        [Some (SubprogramDeclaration (ProcedureHeadNode ''foo'' []) []
                 (Some (CompoundStatementNode []))),
         Some (SubprogramDeclaration (ProcedureHeadNode ''foo_end'' []) []
                 (Some (CompoundStatementNode [])))],
      decls = [],
      mainCompoundStmt = Some (CompoundStatementNode [])\<rparr>)
     (initial_state
        [[(''p_foo'', (new_SymbolEntry ''foo'' PROCEDURE UNKNOWN_TYPE)\<lparr>mangledName := ''p_foo''\<rparr>),
          (''p_foo_end'', (new_SymbolEntry ''foo_end'' PROCEDURE UNKNOWN_TYPE)
                            \<lparr>mangledName := ''p_foo_end''\<rparr>)]]))
   = [''p_foo'', ''p_foo_end'', ''p_foo_end'', ''p_foo_end_end'', ''main_entry'']
   \<and> \<not> distinct (labels_of (emitted (visit_ProgramNode
     \<lparr>subprogs =
        [Some (SubprogramDeclaration (ProcedureHeadNode ''foo'' []) []
                 (Some (CompoundStatementNode []))),
         Some (SubprogramDeclaration (ProcedureHeadNode ''foo_end'' []) []
                 (Some (CompoundStatementNode [])))],
      decls = [],
      mainCompoundStmt = Some (CompoundStatementNode [])\<rparr>)
     (initial_state
        [[(''p_foo'', (new_SymbolEntry ''foo'' PROCEDURE UNKNOWN_TYPE)\<lparr>mangledName := ''p_foo''\<rparr>),
          (''p_foo_end'', (new_SymbolEntry ''foo_end'' PROCEDURE UNKNOWN_TYPE)
                            \<lparr>mangledName := ''p_foo_end''\<rparr>)]])))"
  by (simp add: gen_simps)

end
